theory Spec2Isabelle
  imports Complex_Main
begin

section \<open>Python strings\<close>

text \<open>
  A Python \<open>str\<close> is modelled as a HOL \<open>string\<close>; the character \<open>c\<close> stands for the
  code point \<open>of_char c\<close>, so the model covers the code points 0..255 (ASCII and
  Latin-1). The character classes below are the ones CPython uses on that range.
\<close>

definition is_space :: "char \<Rightarrow> bool" where
  \<comment> \<open>\<open>str.isspace\<close>, which \<open>str.split()\<close>, \<open>str.strip()\<close> and the regular expression
      \<open>\s\<close> all use: TAB..CR, FS..US, SPACE, NEL, NBSP.\<close>
  "is_space c =
     (let n = (of_char c :: nat)
      in (9 \<le> n \<and> n \<le> 13) \<or> (28 \<le> n \<and> n \<le> 32) \<or> n = 133 \<or> n = 160)"

definition is_punctuation :: "char \<Rightarrow> bool" where
  \<comment> \<open>membership in \<open>string.punctuation\<close>: the 32 ASCII characters
      33..47, 58..64, 91..96 and 123..126.\<close>
  "is_punctuation c =
     (let n = (of_char c :: nat)
      in (33 \<le> n \<and> n \<le> 47) \<or> (58 \<le> n \<and> n \<le> 64) \<or> (91 \<le> n \<and> n \<le> 96)
         \<or> (123 \<le> n \<and> n \<le> 126))"

definition is_digit :: "char \<Rightarrow> bool" where
  \<comment> \<open>the regular expression \<open>\d\<close>: the decimal digits 0..9.\<close>
  "is_digit c = (let n = (of_char c :: nat) in 48 \<le> n \<and> n \<le> 57)"

definition is_upper :: "char \<Rightarrow> bool" where
  \<comment> \<open>the characters \<open>str.lower\<close> changes: A..Z and the Latin-1 capitals
      192..222 without the multiplication sign 215.\<close>
  "is_upper c =
     (let n = (of_char c :: nat)
      in (65 \<le> n \<and> n \<le> 90) \<or> (192 \<le> n \<and> n \<le> 214) \<or> (216 \<le> n \<and> n \<le> 222))"

definition lower_char :: "char \<Rightarrow> char" where
  "lower_char c = (if is_upper c then char_of (of_char c + (32 :: nat)) else c)"

definition lower :: "string \<Rightarrow> string" where
  \<comment> \<open>\<open>text.lower()\<close>\<close>
  "lower s = map lower_char s"

definition strip :: "string \<Rightarrow> string" where
  \<comment> \<open>\<open>text.strip()\<close>\<close>
  "strip s = rev (dropWhile is_space (rev (dropWhile is_space s)))"

function split :: "string \<Rightarrow> string list" where
  \<comment> \<open>\<open>text.split()\<close>: skip whitespace, take a maximal run of other characters, repeat.\<close>
  "split s =
     (let t = dropWhile is_space s
      in if t = [] then []
         else takeWhile (\<lambda>c. \<not> is_space c) t # split (dropWhile (\<lambda>c. \<not> is_space c) t))"
  by pat_completeness auto
termination
proof (relation "measure length")
  show "wf (measure length)" by simp
next
  fix s t :: string
  assume t: "t = dropWhile is_space s" and ne: "t \<noteq> []"
  from ne obtain c cs where tc: "t = c # cs" by (cases t) auto
  have "dropWhile is_space s = c # cs"
    using t tc by simp
  then have "\<not> is_space c"
    unfolding dropWhile_eq_Cons_conv by simp
  then have "length (dropWhile (\<lambda>c. \<not> is_space c) t) \<le> length cs"
    by (simp add: tc length_dropWhile_le)
  moreover have "length t \<le> length s"
    by (simp add: t length_dropWhile_le)
  ultimately show "(dropWhile (\<lambda>c. \<not> is_space c) t, s) \<in> measure length"
    by (simp add: tc)
qed

declare split.simps [simp del]

fun split_sep :: "string \<Rightarrow> string list" where
  \<comment> \<open>\<open>text.split(' ')\<close>: cut at every single space; never the empty list.\<close>
  "split_sep [] = [[]]"
| "split_sep (c # cs) =
     (if c = CHR '' '' then [] # split_sep cs
      else (case split_sep cs of [] \<Rightarrow> [[c]] | w # ws \<Rightarrow> (c # w) # ws))"

fun join :: "string list \<Rightarrow> string" where
  \<comment> \<open>\<open>' '.join(tokens)\<close>\<close>
  "join [] = []"
| "join [w] = w"
| "join (w # v # ws) = w @ CHR '' '' # join (v # ws)"

function sub_spaces :: "string \<Rightarrow> string" where
  \<comment> \<open>\<open>re.sub(r'\s+', ' ', text)\<close>: every maximal run of whitespace becomes one space.\<close>
  "sub_spaces [] = []"
| "sub_spaces (c # cs) =
     (if is_space c then CHR '' '' # sub_spaces (dropWhile is_space cs)
      else c # sub_spaces cs)"
  by pat_completeness auto
termination
  by (relation "measure length") (auto simp: le_imp_less_Suc length_dropWhile_le)

definition sub_digits :: "string \<Rightarrow> string" where
  \<comment> \<open>\<open>re.sub(r'\d+', '', text)\<close>: every run of digits is deleted.\<close>
  "sub_digits s = filter (\<lambda>c. \<not> is_digit c) s"

definition delete_punctuation :: "string \<Rightarrow> string" where
  \<comment> \<open>\<open>text.translate(str.maketrans('', '', string.punctuation))\<close>\<close>
  "delete_punctuation s = filter (\<lambda>c. \<not> is_punctuation c) s"

section \<open>nlp\_processor.py\<close>

text \<open>
  The module creates a Sastrawi stemmer and a Sastrawi stopword remover once and calls
  \<open>stemmer.stem(word)\<close> and \<open>stopword_remover.remove(text)\<close>. Sastrawi is a library
  outside the repository, so both calls are parameters of the model:
  \<open>stemmer :: string \<Rightarrow> string\<close> and \<open>remover :: string \<Rightarrow> string\<close>.
\<close>

datatype pyobj = Str string | NonStr
  \<comment> \<open>the argument of \<open>case_folding\<close>: a \<open>str\<close>, or any other Python value\<close>

definition CUSTOM_STOPWORDS :: "string set" where
  "CUSTOM_STOPWORDS =
     {''dan'', ''atau'', ''yang'', ''di'', ''ke'', ''dari'', ''ini'', ''itu'',
      ''dengan'', ''untuk'', ''pada'', ''adalah'', ''juga'', ''sudah'',
      ''akan'', ''bisa'', ''ada'', ''tidak'', ''saya'', ''kami'', ''kita'',
      ''mereka'', ''dia'', ''ia'', ''sangat'', ''sekali'', ''terasa'', ''seperti''}"

definition case_folding :: "pyobj \<Rightarrow> string" where
  "case_folding text = (case text of NonStr \<Rightarrow> [] | Str s \<Rightarrow> lower s)"

definition remove_punctuation :: "string \<Rightarrow> string" where
  "remove_punctuation text = strip (sub_spaces (sub_digits (delete_punctuation text)))"

definition tokenize :: "string \<Rightarrow> string list" where
  "tokenize text = split text"

definition remove_stopwords :: "(string \<Rightarrow> string) \<Rightarrow> string list \<Rightarrow> string list" where
  "remove_stopwords remover tokens =
     (let text = join tokens;
          text = remover text;
          result_tokens = split text
      in filter (\<lambda>word. word \<notin> CUSTOM_STOPWORDS) result_tokens)"

definition stem :: "(string \<Rightarrow> string) \<Rightarrow> string list \<Rightarrow> string list" where
  "stem stemmer tokens = map stemmer tokens"

definition preprocess :: "(string \<Rightarrow> string) \<Rightarrow> (string \<Rightarrow> string) \<Rightarrow> pyobj \<Rightarrow> string" where
  "preprocess stemmer remover text =
     (let text = case_folding text;
          text = remove_punctuation text;
          tokens = tokenize text;
          tokens = remove_stopwords remover tokens;
          tokens = stem stemmer tokens
      in join tokens)"

definition preprocess_batch ::
  "(string \<Rightarrow> string) \<Rightarrow> (string \<Rightarrow> string) \<Rightarrow> pyobj list \<Rightarrow> string list" where
  "preprocess_batch stemmer remover texts = map (preprocess stemmer remover) texts"

definition stopword_remover_remove :: "(string \<Rightarrow> bool) \<Rightarrow> string \<Rightarrow> string" where
  \<comment> \<open>Modelled from the spec: the library call \<open>stopword_remover.remove(text)\<close>, whose code
      is not part of the repository. The spec describes it as a filter applied to the
      joined token string that produces a filtered token string, over the black-box
      capability \<open>isStopword(token) -> bool\<close>: the words between single spaces that are
      stopwords are dropped and the others are joined again.\<close>
  "stopword_remover_remove isStopword text =
     join (filter (\<lambda>word. \<not> isStopword word) (split_sep text))"

section \<open>Python's random module\<close>

text \<open>
  The generator's state is an infinite sequence of raw draws; each call consumes draws
  and returns the generator advanced. Every result the library can return comes from
  some sequence, so a statement about all generators covers all outcomes.
\<close>

type_synonym rng = "nat \<Rightarrow> nat"

datatype error = ValueError | KeyError | PickleError | AttributeError

definition draw :: "rng \<Rightarrow> nat \<times> rng" where
  "draw g = (g 0, \<lambda>i. g (Suc i))"

definition randint :: "int \<Rightarrow> int \<Rightarrow> rng \<Rightarrow> (error + int) \<times> rng" where
  \<comment> \<open>\<open>random.randint(a, b)\<close>: an integer of \<open>a..b\<close>; \<open>ValueError\<close> on an empty range.\<close>
  "randint a b g =
     (if b < a then (Inl ValueError, g)
      else (Inr (a + int (fst (draw g) mod nat (b - a + 1))), snd (draw g)))"

fun pick :: "'a list \<Rightarrow> nat \<Rightarrow> rng \<Rightarrow> 'a list \<times> rng" where
  \<comment> \<open>\<open>k\<close> elements at distinct positions, in the order drawn.\<close>
  "pick population 0 g = ([], g)"
| "pick population (Suc k) g =
     (let i = fst (draw g) mod length population;
          rest = pick (take i population @ drop (Suc i) population) k (snd (draw g))
      in (population ! i # fst rest, snd rest))"

definition sample :: "'a list \<Rightarrow> int \<Rightarrow> rng \<Rightarrow> (error + 'a list) \<times> rng" where
  \<comment> \<open>\<open>random.sample(population, k)\<close>: \<open>ValueError\<close> when \<open>k\<close> is negative or larger than
      the population.\<close>
  "sample population k g =
     (if k < 0 \<or> int (length population) < k then (Inl ValueError, g)
      else (Inr (fst (pick population (nat k) g)), snd (pick population (nat k) g)))"

section \<open>app.py\<close>

subsection \<open>The loaded artifact\<close>

text \<open>
  The module keeps two globals, \<open>model\<close> and \<open>vectorizer\<close>, both \<open>None\<close> at import.
  The objects that \<open>pickle.load\<close> returns are values of a type \<open>'o\<close>; \<open>pickle.load\<close> is
  a parameter that may raise. The methods and the attribute the route reads on the two
  objects belong to scikit-learn, outside the repository: they are parameters, and each
  may raise. They stand for the one document the route passes (the source builds a
  one-row batch and reads element \<open>[0]\<close> of each answer).
\<close>

record 'o globals =
  model :: "'o option"
  vectorizer :: "'o option"





record ('o, 'x) sklearn =
  sk_transform :: "'o \<Rightarrow> string \<Rightarrow> error + 'x"
  sk_predict :: "'o \<Rightarrow> 'x \<Rightarrow> error + string"
  sk_predict_proba :: "'o \<Rightarrow> 'x \<Rightarrow> error + real list"
  sk_classes :: "'o \<Rightarrow> error + string list"

subsection \<open>get\_saran\<close>

record pool =
  p_warna :: string
  p_icon :: "nat list"
  p_deskripsi :: string
  p_saran_all :: "string list"

text \<open>The icons are not ASCII: \<open>p_icon\<close> holds their Unicode code points.\<close>

definition pool_baik :: pool where
  "pool_baik =
     \<lparr>p_warna = ''#28a745'',
      p_icon = [9989],
      p_deskripsi = ''Kualitas udara sangat baik dan sehat untuk semua aktivitas.'',
      p_saran_all =
        [''Aman untuk beraktivitas di luar ruangan sepanjang hari'',
         ''Cocok untuk olahraga dan kegiatan outdoor'',
         ''Nikmati udara segar dengan membuka jendela rumah'',
         ''Tidak perlu menggunakan masker'',
         ''Waktu yang tepat untuk jogging atau lari pagi'',
         ''Ideal untuk bersepeda di taman atau jalanan'',
         ''Bagus untuk piknik bersama keluarga'',
         ''Aman untuk anak-anak bermain di luar'',
         ''Cocok untuk senam pagi di area terbuka'',
         ''Manfaatkan untuk menjemur pakaian'',
         ''Baik untuk berkebun atau aktivitas halaman'',
         ''Udara segar baik untuk kesehatan mental'',
         ''Sempurna untuk hiking atau mendaki'',
         ''Aman untuk lansia beraktivitas outdoor'',
         ''Waktu tepat untuk olahraga bersama komunitas'']\<rparr>"

definition pool_sedang :: pool where
  "pool_sedang =
     \<lparr>p_warna = ''#ffc107'',
      p_icon = [9888, 65039],
      p_deskripsi = ''Kualitas udara cukup baik, namun perlu sedikit perhatian.'',
      p_saran_all =
        [''Kurangi aktivitas berat di luar ruangan'',
         ''Gunakan masker jika sensitif terhadap polusi'',
         ''Perhatikan gejala seperti batuk atau mata perih'',
         ''Tutup jendela jika polusi meningkat'',
         ''Batasi waktu olahraga outdoor maksimal 1 jam'',
         ''Hindari area dengan lalu lintas padat'',
         ''Minum air putih lebih banyak dari biasanya'',
         ''Pertimbangkan olahraga indoor hari ini'',
         ''Waspadai jika memiliki riwayat asma'',
         ''Kurangi aktivitas fisik saat siang hari'',
         ''Pantau kondisi udara secara berkala'',
         ''Siapkan masker untuk berjaga-jaga'',
         ''Hindari area konstruksi atau pembangunan'',
         ''Batasi aktivitas outdoor untuk anak kecil'',
         ''Pertimbangkan untuk bekerja dari rumah'']\<rparr>"

definition pool_tidak_sehat :: pool where
  "pool_tidak_sehat =
     \<lparr>p_warna = ''#dc3545'',
      p_icon = [128680],
      p_deskripsi = ''Kualitas udara buruk dan berbahaya bagi kesehatan.'',
      p_saran_all =
        [''Hindari aktivitas di luar ruangan'',
         ''WAJIB gunakan masker N95 jika harus keluar'',
         ''Tutup semua jendela dan pintu rapat-rapat'',
         ''Gunakan air purifier jika tersedia'',
         ''Segera ke dokter jika mengalami sesak napas'',
         ''Jangan biarkan anak-anak bermain di luar'',
         ''Batasi aktivitas fisik seminimal mungkin'',
         ''Nyalakan AC dengan mode recirculate'',
         ''Siapkan obat-obatan pernapasan darurat'',
         ''Hindari memasak dengan pembakaran terbuka'',
         ''Basahi kain dan letakkan di ventilasi'',
         ''Minum air hangat untuk meredakan tenggorokan'',
         ''Tetap di dalam ruangan sebisa mungkin'',
         ''Hubungi layanan kesehatan jika gejala memburuk'',
         ''Evakuasi jika kondisi sangat parah'',
         ''Pantau informasi dari BMKG dan Dinkes'',
         ''Jangan membakar sampah atau apapun'']\<rparr>"

definition saran_pool :: "string \<rightharpoonup> pool" where
  "saran_pool =
     map_of [(''Baik'', pool_baik), (''Sedang'', pool_sedang), (''Tidak Sehat'', pool_tidak_sehat)]"

record saran_info =
  s_warna :: string
  s_icon :: "nat list"
  s_deskripsi :: string
  s_saran :: "string list"

definition get_saran :: "string \<Rightarrow> rng \<Rightarrow> (error + saran_info) \<times> rng" where
  "get_saran kualitas g =
     (case saran_pool ''Sedang'' of
        None \<Rightarrow> (Inl KeyError, g)
      | Some fallback \<Rightarrow>
          (let pool = (case saran_pool kualitas of None \<Rightarrow> fallback | Some p \<Rightarrow> p)
           in case randint 4 5 g of
                (Inl e, g) \<Rightarrow> (Inl e, g)
              | (Inr num_saran, g) \<Rightarrow>
                  (case sample (p_saran_all pool)
                          (min num_saran (int (length (p_saran_all pool)))) g of
                     (Inl e, g) \<Rightarrow> (Inl e, g)
                   | (Inr selected_saran, g) \<Rightarrow>
                       (Inr \<lparr>s_warna = p_warna pool, s_icon = p_icon pool,
                             s_deskripsi = p_deskripsi pool, s_saran = selected_saran\<rparr>, g))))"

subsection \<open>The route /predict\<close>

text \<open>
  A float is read as the real number it denotes. Floating-point arithmetic is not
  modelled: the computation \<open>round(p * 100, 1)\<close> on a float \<open>p\<close> is the parameter
  \<open>percent\<close> of the route.
\<close>

record prediction =
  kualitas :: string
  input_text :: string
  processed_text :: string
  probabilitas :: "string \<rightharpoonup> real"
  saran :: "string list"
  deskripsi :: string

datatype response = Failure string | Success prediction
  \<comment> \<open>the JSON bodies \<open>{'error': True, 'message': m}\<close> and \<open>{'error': False, ...}\<close>\<close>

definition form_get :: "(string \<rightharpoonup> string) \<Rightarrow> string \<Rightarrow> string \<Rightarrow> string" where
  \<comment> \<open>\<open>request.form.get(key, default)\<close>\<close>
  "form_get form key dflt = (case form key of None \<Rightarrow> dflt | Some v \<Rightarrow> v)"

definition dict_zip :: "'k list \<Rightarrow> 'v list \<Rightarrow> ('k \<rightharpoonup> 'v)" where
  \<comment> \<open>\<open>dict(zip(keys, values))\<close>: the pairs up to the shorter list; a later pair wins.\<close>
  "dict_zip ks vs = map_of (rev (zip ks vs))"

definition predict ::
  "('o, 'x) sklearn \<Rightarrow> (real \<Rightarrow> real) \<Rightarrow> (string \<Rightarrow> string) \<Rightarrow> (string \<Rightarrow> string) \<Rightarrow>
   'o globals \<Rightarrow> (string \<rightharpoonup> string) \<Rightarrow> rng \<Rightarrow> (error + response) \<times> rng" where
  "predict lib percent stemmer remover g form r =
     (case (model g, vectorizer g) of
        (Some m, Some v) \<Rightarrow>
          (let kondisi_kabut = form_get form ''kondisi_kabut'' [];
               kondisi_bau = form_get form ''kondisi_bau'' [];
               kondisi_pernapasan = form_get form ''kondisi_pernapasan'' [];
               deskripsi_tambahan = form_get form ''deskripsi'' [];
               input_text = kondisi_kabut @ '' '' @ kondisi_bau @ '' '' @ kondisi_pernapasan
                              @ '' '' @ deskripsi_tambahan
           in if strip input_text = []
              then (Inr (Failure ''Silakan isi minimal satu pertanyaan.''), r)
              else
                (let processed_text = preprocess stemmer remover (Str input_text)
                 in case sk_transform lib v processed_text of
                      Inl e \<Rightarrow> (Inl e, r)
                    | Inr text_tfidf \<Rightarrow>
                 (case sk_predict lib m text_tfidf of
                      Inl e \<Rightarrow> (Inl e, r)
                    | Inr prediction \<Rightarrow>
                 (case sk_predict_proba lib m text_tfidf of
                      Inl e \<Rightarrow> (Inl e, r)
                    | Inr probability \<Rightarrow>
                 (case sk_classes lib m of
                      Inl e \<Rightarrow> (Inl e, r)
                    | Inr classes \<Rightarrow>
                 (let prob_dict = dict_zip classes (map percent probability)
                  in case get_saran prediction r of
                       (Inl e, r) \<Rightarrow> (Inl e, r)
                     | (Inr saran_info, r) \<Rightarrow>
                         (Inr (Success
                            \<lparr>kualitas = prediction, input_text = input_text,
                             processed_text = processed_text, probabilitas = prob_dict,
                             saran = s_saran saran_info,
                             deskripsi = s_deskripsi saran_info\<rparr>), r)))))))
      | _ \<Rightarrow> (Inr (Failure ''Model belum dimuat. Jalankan training terlebih dahulu.''), r))"

section \<open>model\_training.py\<close>

text \<open>
  \<open>train_model\<close> consists of calls into scikit-learn: \<open>train_test_split\<close> (with
  \<open>test_size=0.2\<close>, \<open>random_state=42\<close>, \<open>stratify=y\<close>), \<open>TfidfVectorizer\<close> (with
  \<open>max_features=1000\<close>, \<open>ngram_range=(1, 2)\<close>, \<open>min_df=1\<close>) and \<open>MultinomialNB\<close> (with
  \<open>alpha=1.0\<close>). Each call is a parameter that may raise; the split takes the three
  arguments the source passes beside the two columns. The data frame is the list of its
  rows, a row being the pair of its \<open>processed_text\<close> and its \<open>label_kualitas\<close>. The
  classification report and the confusion matrix are only printed and are left out.
  The locals \<open>model\<close> and \<open>vectorizer\<close> carry a prime, the plain names being the globals
  of app.py.
\<close>

record ('o, 'x) trainer =
  tr_train_test_split ::
    "string list \<Rightarrow> string list \<Rightarrow> real \<Rightarrow> nat \<Rightarrow> string list \<Rightarrow>
     error + (string list \<times> string list \<times> string list \<times> string list)"
  tr_fit_transform :: "string list \<Rightarrow> error + ('o \<times> 'x list)"
  tr_transform :: "'o \<Rightarrow> string list \<Rightarrow> error + 'x list"
  tr_fit :: "'x list \<Rightarrow> string list \<Rightarrow> error + 'o"
  tr_predict :: "'o \<Rightarrow> 'x list \<Rightarrow> error + string list"
  tr_accuracy_score :: "string list \<Rightarrow> string list \<Rightarrow> real"

definition train_model ::
  "('o, 'x) trainer \<Rightarrow> (string \<times> string) list \<Rightarrow> error + ('o \<times> 'o \<times> real)" where
  "train_model lib df =
     (let X = map fst df; y = map snd df
      in case tr_train_test_split lib X y (2 / 10) 42 y of
           Inl e \<Rightarrow> Inl e
         | Inr (X_train, X_test, y_train, y_test) \<Rightarrow>
             (case tr_fit_transform lib X_train of
                Inl e \<Rightarrow> Inl e
              | Inr (vectorizer', X_train_tfidf) \<Rightarrow>
                  (case tr_transform lib vectorizer' X_test of
                     Inl e \<Rightarrow> Inl e
                   | Inr X_test_tfidf \<Rightarrow>
                       (case tr_fit lib X_train_tfidf y_train of
                          Inl e \<Rightarrow> Inl e
                        | Inr model' \<Rightarrow>
                            (case tr_predict lib model' X_test_tfidf of
                               Inl e \<Rightarrow> Inl e
                             | Inr y_pred \<Rightarrow>
                                 Inr (model', vectorizer',
                                      tr_accuracy_score lib y_test y_pred))))))"

section \<open>The classifier pipeline of the specification\<close>

text \<open>
  The feature extractor and the classifier that the route calls are objects of
  scikit-learn; their code is not part of the repository. The specification describes
  both (sections 3 and 4.3), and the definitions of this section follow its words.
\<close>

record extractor =
  ex_vocabulary :: "string list"
  ex_idf :: "real list"

record classifier =
  cl_classes :: "string list"
  cl_log_prior :: "real list"
  cl_log_likelihood :: "real list list"

datatype artifact = Extractor extractor | Classifier classifier
  \<comment> \<open>what the two pickle files hold\<close>

definition ngrams :: "string \<Rightarrow> string list" where
  \<comment> \<open>Modelled from the spec: the terms of a normalized text, which scikit-learn's
      vectorizer computes. Section 3: the vocabulary consists of unigrams and bigrams of
      the whitespace-joined tokens.\<close>
  "ngrams text =
     (let tokens = split text
      in tokens @ map2 (\<lambda>a b. a @ '' '' @ b) tokens (tl tokens))"

definition transform :: "extractor \<Rightarrow> string \<Rightarrow> real list" where
  \<comment> \<open>Modelled from the spec: \<open>vectorizer.transform\<close>, scikit-learn's. Section 3: a vector
      indexed by the fixed vocabulary whose entries are term frequency times inverse
      document frequency; section 4.3: unseen terms are ignored, never an error.\<close>
  "transform v text =
     map2 (\<lambda>term weight. real (count_list (ngrams text) term) * weight)
       (ex_vocabulary v) (ex_idf v)"

definition joint_log_likelihood :: "classifier \<Rightarrow> real list \<Rightarrow> real list" where
  \<comment> \<open>Modelled from the spec: part of scikit-learn's classifier. Section 4.3: per class,
      the log prior plus the sum over the features of the log-likelihood weighted by the
      feature weight.\<close>
  "joint_log_likelihood c x =
     map2 (\<lambda>prior row. prior + sum_list (map2 (\<lambda>weight l. weight * l) x row))
       (cl_log_prior c) (cl_log_likelihood c)"

definition distribution :: "classifier \<Rightarrow> real list \<Rightarrow> real list" where
  \<comment> \<open>Modelled from the spec: \<open>model.predict_proba\<close>, scikit-learn's. Section 4.3: the
      joint log-likelihoods, normalized via exponentiation and re-normalization.\<close>
  "distribution c x =
     (let es = map exp (joint_log_likelihood c x)
      in map (\<lambda>e. e / sum_list es) es)"

definition first_max :: "real list \<Rightarrow> nat" where
  \<comment> \<open>the position of the first largest entry\<close>
  "first_max ps = length (takeWhile (\<lambda>p. p < Max (set ps)) ps)"

definition chosen_label :: "classifier \<Rightarrow> real list \<Rightarrow> error + string" where
  \<comment> \<open>Modelled from the spec: \<open>model.predict\<close>, scikit-learn's. Section 4.3: the argmax
      over the distribution, ties broken by the classifier's fixed label ordering. There
      is no label to choose when there is no class at that position.\<close>
  "chosen_label c x =
     (let ps = distribution c x; i = first_max ps
      in if ps \<noteq> [] \<and> i < length (cl_classes c) then Inr (cl_classes c ! i)
         else Inl ValueError)"

definition spec_sklearn :: "(artifact, real list) sklearn" where
  \<comment> \<open>Modelled from the spec: the four calls of the route on the objects of the
      specification. A call on an object of the other kind finds no such method.\<close>
  "spec_sklearn =
     \<lparr>sk_transform =
        (\<lambda>object text. case object of Extractor v \<Rightarrow> Inr (transform v text)
                        | Classifier c \<Rightarrow> Inl AttributeError),
      sk_predict =
        (\<lambda>object x. case object of Classifier c \<Rightarrow> chosen_label c x
                     | Extractor v \<Rightarrow> Inl AttributeError),
      sk_predict_proba =
        (\<lambda>object x. case object of Classifier c \<Rightarrow> Inr (distribution c x)
                     | Extractor v \<Rightarrow> Inl AttributeError),
      sk_classes =
        (\<lambda>object. case object of Classifier c \<Rightarrow> Inr (cl_classes c)
                   | Extractor v \<Rightarrow> Inl AttributeError)\<rparr>"

definition fitted :: "extractor \<Rightarrow> classifier \<Rightarrow> bool" where
  \<comment> \<open>Modelled from the spec: the shape of a trained artifact (section 3, the pair of a
      fitted extractor and a fitted classifier): one weight for every term of the
      vocabulary; at least one label, no label twice, one prior and one row of
      likelihoods for every label; one likelihood in a row for every term.\<close>
  "fitted v c =
     (length (ex_idf v) = length (ex_vocabulary v)
      \<and> cl_classes c \<noteq> [] \<and> distinct (cl_classes c)
      \<and> length (cl_log_prior c) = length (cl_classes c)
      \<and> length (cl_log_likelihood c) = length (cl_classes c)
      \<and> list_all (\<lambda>row. length row = length (ex_vocabulary v)) (cl_log_likelihood c))"

definition spec_argmax :: "string list \<Rightarrow> (string \<rightharpoonup> real) \<Rightarrow> string option" where
  \<comment> \<open>Modelled from the spec: the chosen label (section 4.3), the argmax over a
      distribution given as a mapping, the first one in the classifier's label order when
      several labels tie.\<close>
  "spec_argmax labels mapping =
     find (\<lambda>c. list_all (\<lambda>d. case (mapping c, mapping d) of
                                (Some p, Some q) \<Rightarrow> q \<le> p | _ \<Rightarrow> False) labels)
          labels"

section \<open>Notions of the statements\<close>

definition normal_char :: "char \<Rightarrow> bool" where
  \<comment> \<open>a character of normalized text: no whitespace, punctuation, digit or capital\<close>
  "normal_char c = (\<not> is_space c \<and> \<not> is_punctuation c \<and> \<not> is_digit c \<and> \<not> is_upper c)"

definition normal_token :: "string \<Rightarrow> bool" where
  "normal_token w = (w \<noteq> [] \<and> list_all normal_char w)"

definition fixed_token :: "(string \<Rightarrow> string) \<Rightarrow> (string \<Rightarrow> bool) \<Rightarrow> string \<Rightarrow> bool" where
  \<comment> \<open>a token that a second pass of the pipeline leaves alone\<close>
  "fixed_token stemmer isStopword u =
     (normal_token u \<and> \<not> isStopword u \<and> u \<notin> CUSTOM_STOPWORDS \<and> stemmer u = u)"

definition pool_of :: "string \<Rightarrow> pool" where
  \<comment> \<open>the value of \<open>saran_pool.get(kualitas, saran_pool["Sedang"])\<close>\<close>
  "pool_of k = (case saran_pool k of None \<Rightarrow> pool_sedang | Some p \<Rightarrow> p)"

definition request_text :: "(string \<rightharpoonup> string) \<Rightarrow> string" where
  \<comment> \<open>the value of \<open>input_text\<close> in the route: the four form fields, absent ones empty,
      with single spaces between them\<close>
  "request_text form =
     form_get form ''kondisi_kabut'' [] @ '' '' @ form_get form ''kondisi_bau'' [] @ '' ''
       @ form_get form ''kondisi_pernapasan'' [] @ '' '' @ form_get form ''deskripsi'' []"


section \<open>Sample resources\<close>

text \<open>
  Concrete stand-ins for the libraries, used where the pipeline is evaluated on a sample
  input. The stemmer knows the roots of two derived words and leaves every other word
  unchanged (Sastrawi stems \<open>adanya\<close> to \<open>ada\<close>); the stopword list has three words.
\<close>

definition sample_stemmer :: "string \<Rightarrow> string" where
  "sample_stemmer w =
     (case map_of [(''adanya'', ''ada''), (''udaranya'', ''udara'')] w of
        None \<Rightarrow> w | Some base \<Rightarrow> base)"

definition sample_isStopword :: "string \<Rightarrow> bool" where
  "sample_isStopword w = (w \<in> {''yang'', ''dan'', ''di''})"

definition sample_remover :: "string \<Rightarrow> string" where
  "sample_remover = stopword_remover_remove sample_isStopword"

text \<open>
  A stand-in for the float computation \<open>round(p * 100, 1)\<close>: the real product, rounded to
  the nearest tenth, a tie going to the even tenth. It agrees with the float computation
  where the product and its rounding are exact, as at the probabilities 1/2 and 1/4
  used below.
\<close>

definition round_half_even :: "real \<Rightarrow> int" where
  \<comment> \<open>the nearest integer, a tie going to the even one\<close>
  "round_half_even y =
     (let f = \<lfloor>y\<rfloor>; d = y - of_int f
      in if d < 1 / 2 then f else if 1 / 2 < d then f + 1
         else if even f then f else f + 1)"

definition round1 :: "real \<Rightarrow> real" where
  "round1 x = of_int (round_half_even (x * 10)) / 10"

definition sample_percent :: "real \<Rightarrow> real" where
  "sample_percent p = round1 (p * 100)"

text \<open>
  A sample artifact in the specification's terms, with a vocabulary of two words and the
  three labels; the priors are 1/2, 1/4 and 1/4.
\<close>

definition sample_extractor :: extractor where
  "sample_extractor = \<lparr>ex_vocabulary = [''asap'', ''segar''], ex_idf = [1, 1]\<rparr>"

definition sample_classifier :: classifier where
  "sample_classifier =
     \<lparr>cl_classes = [''Baik'', ''Sedang'', ''Tidak Sehat''],
      cl_log_prior = [ln 2, 0, 0],
      cl_log_likelihood = [[- 2, - 1], [- 1, - 1], [- 1, - 2]]\<rparr>"

definition sample_globals :: "artifact globals" where
  "sample_globals =
     \<lparr>model = Some (Classifier sample_classifier),
      vectorizer = Some (Extractor sample_extractor)\<rparr>"



definition sample_form :: "string \<rightharpoonup> string" where
  "sample_form = [''kondisi_kabut'' \<mapsto> ''Asap tebal'', ''deskripsi'' \<mapsto> ''mata perih!'']"


definition sample_form_stopword :: "string \<rightharpoonup> string" where
  \<comment> \<open>a form that is not blank and normalizes to the empty string\<close>
  "sample_form_stopword = [''deskripsi'' \<mapsto> ''yang!!'']"

definition sample_rng :: rng where
  "sample_rng i = 3 * i + 1"

text \<open>
  A sample training library. Its \<open>train_test_split\<close> validates as scikit-learn's
  stratified split does (a test part of the given share of the rows, rounded up; no
  empty training part; at least two rows of every class; neither part smaller than the
  number of classes) and then cuts the rows in order instead of shuffling them. The
  vectorizer object is the vocabulary, the classifier object the list of classes seen.
\<close>

definition sample_train_test_split ::
  "string list \<Rightarrow> string list \<Rightarrow> real \<Rightarrow> nat \<Rightarrow> string list \<Rightarrow>
   error + (string list \<times> string list \<times> string list \<times> string list)" where
  "sample_train_test_split X y test_size random_state stratify =
     (let n_test = nat \<lceil>test_size * real (length X)\<rceil>;
          n_train = length X - n_test;
          classes = remdups stratify
      in if n_train = 0 then Inl ValueError
         else if list_ex (\<lambda>c. count_list stratify c < 2) classes then Inl ValueError
         else if n_train < length classes \<or> n_test < length classes then Inl ValueError
         else Inr (take n_train X, drop n_train X, take n_train y, drop n_train y))"

definition sample_trainer :: "(string list, nat list) trainer" where
  "sample_trainer =
     \<lparr>tr_train_test_split = sample_train_test_split,
      tr_fit_transform =
        (\<lambda>docs. let vocabulary = remdups (concat (map split docs))
                in if vocabulary = [] then Inl ValueError
                   else Inr (vocabulary, map (\<lambda>d. map (count_list (split d)) vocabulary) docs)),
      tr_transform =
        (\<lambda>vocabulary docs. Inr (map (\<lambda>d. map (count_list (split d)) vocabulary) docs)),
      tr_fit = (\<lambda>rows labels. Inr (remdups labels)),
      tr_predict =
        (\<lambda>classes rows. case classes of [] \<Rightarrow> Inl ValueError
                         | c # _ \<Rightarrow> Inr (map (\<lambda>row. c) rows)),
      tr_accuracy_score =
        (\<lambda>y_true y_pred. real (length (filter (\<lambda>(a, b). a = b) (zip y_true y_pred)))
                          / real (length y_true))\<rparr>"

definition sample_df :: "(string \<times> string) list" where
  \<comment> \<open>ten rows, all with the one label \<open>Baik\<close>\<close>
  "sample_df = replicate 10 (''udara segar bersih'', ''Baik'')"

section \<open>Splitting and joining\<close>

lemmas char_classes = is_space_def is_punctuation_def is_digit_def is_upper_def

lemmas nlp_eval = preprocess_def case_folding_def lower_def lower_char_def
  remove_punctuation_def strip_def sub_digits_def delete_punctuation_def tokenize_def
  remove_stopwords_def stem_def stopword_remover_remove_def CUSTOM_STOPWORDS_def
  char_classes char_of_eq_iff

lemma split_Nil [simp]: "split [] = []"
  by (simp add: split.simps)

lemma split_Cons_space [simp]: "is_space c \<Longrightarrow> split (c # cs) = split cs"
  by (simp add: split.simps [of "c # cs"] split.simps [of cs])

lemma split_Cons_word [simp]:
  "\<not> is_space c \<Longrightarrow>
   split (c # cs) =
     (c # takeWhile (\<lambda>c. \<not> is_space c) cs) # split (dropWhile (\<lambda>c. \<not> is_space c) cs)"
  by (simp add: split.simps [of "c # cs"])

lemma split_append_space: "split (a @ CHR '' '' # b) = split a @ split b"
proof (induction a rule: length_induct)
  case (1 a)
  have sp: "is_space CHR '' ''" by (simp add: is_space_def)
  show ?case
  proof (cases a)
    case Nil
    then show ?thesis by (simp add: sp)
  next
    case (Cons c cs)
    show ?thesis
    proof (cases "is_space c")
      case True
      with 1 Cons show ?thesis by simp
    next
      case False
      let ?d = "dropWhile (\<lambda>c. \<not> is_space c) cs"
      have "length ?d < length a"
        using Cons by (simp add: length_dropWhile_le le_imp_less_Suc)
      with 1 have ih: "split (?d @ CHR '' '' # b) = split ?d @ split b" by blast
      have t: "takeWhile (\<lambda>c. \<not> is_space c) (cs @ CHR '' '' # b) = takeWhile (\<lambda>c. \<not> is_space c) cs"
        by (simp add: takeWhile_tail sp)
      have d: "dropWhile (\<lambda>c. \<not> is_space c) (cs @ CHR '' '' # b) = ?d @ CHR '' '' # b"
        by (simp add: dropWhile_append3 sp)
      show ?thesis
        using False by (simp add: Cons t d ih)
    qed
  qed
qed

lemma split_join_concat: "split (join ws) = concat (map split ws)"
  by (induction ws rule: join.induct) (simp_all add: split_append_space)

section \<open>Normalized text passes through the pipeline unchanged\<close>

lemma space_classes:
  "is_space CHR '' ''" "\<not> is_punctuation CHR '' ''" "\<not> is_digit CHR '' ''"
  "\<not> is_upper CHR '' ''"
  by (simp_all add: is_space_def is_punctuation_def is_digit_def is_upper_def)

lemma set_join: "c \<in> set (join ws) \<Longrightarrow> c = CHR '' '' \<or> (\<exists>w \<in> set ws. c \<in> set w)"
  by (induction ws rule: join.induct) auto

lemma normal_join_chars:
  assumes "list_all normal_token ws" and "c \<in> set (join ws)"
  shows "c = CHR '' '' \<or> normal_char c"
  using set_join [OF assms(2)] assms(1)
  by (auto simp: list_all_iff normal_token_def)

lemma lower_join: "list_all normal_token ws \<Longrightarrow> lower (join ws) = join ws"
  unfolding lower_def
  by (rule map_idI) (auto dest!: normal_join_chars simp: lower_char_def normal_char_def space_classes)

lemma delete_punctuation_join:
  "list_all normal_token ws \<Longrightarrow> delete_punctuation (join ws) = join ws"
  unfolding delete_punctuation_def filter_id_conv
  by (auto dest!: normal_join_chars simp: normal_char_def space_classes)

lemma sub_digits_join: "list_all normal_token ws \<Longrightarrow> sub_digits (join ws) = join ws"
  unfolding sub_digits_def filter_id_conv
  by (auto dest!: normal_join_chars simp: normal_char_def space_classes)

lemma sub_spaces_append:
  "list_all (\<lambda>c. \<not> is_space c) w \<Longrightarrow> sub_spaces (w @ s) = w @ sub_spaces s"
  by (induction w) auto

lemma join_Cons_hd: "w \<noteq> [] \<Longrightarrow> \<exists>r. join (w # ws) = hd w # r"
  by (cases w; cases ws) auto

lemma normal_token_no_space: "normal_token w \<Longrightarrow> list_all (\<lambda>c. \<not> is_space c) w"
  by (auto simp: normal_token_def normal_char_def list_all_iff)

lemma normal_token_hd: "normal_token w \<Longrightarrow> \<not> is_space (hd w)"
  by (cases w) (auto simp: normal_token_def normal_char_def)

lemma sub_spaces_join: "list_all normal_token ws \<Longrightarrow> sub_spaces (join ws) = join ws"
proof (induction ws rule: join.induct)
  case 1
  show ?case by simp
next
  case (2 w)
  then show ?case
    using sub_spaces_append [of w "[]"] by (simp add: normal_token_no_space)
next
  case (3 w v ws)
  from "3.prems" have v: "normal_token v" and w: "normal_token w" by simp_all
  then have "v \<noteq> []" by (simp add: normal_token_def)
  then obtain r where r: "join (v # ws) = hd v # r"
    using join_Cons_hd by blast
  have "dropWhile is_space (join (v # ws)) = join (v # ws)"
    using normal_token_hd [OF v] by (simp add: r)
  with 3 show ?case
    by (simp add: sub_spaces_append normal_token_no_space w space_classes)
qed

lemma join_last: "ws \<noteq> [] \<Longrightarrow> last ws \<noteq> [] \<Longrightarrow> join ws \<noteq> [] \<and> last (join ws) = last (last ws)"
  by (induction ws rule: join.induct) auto

lemma strip_id: "s \<noteq> [] \<Longrightarrow> \<not> is_space (hd s) \<Longrightarrow> \<not> is_space (last s) \<Longrightarrow> strip s = s"
proof -
  assume s: "s \<noteq> []" and h: "\<not> is_space (hd s)" and l: "\<not> is_space (last s)"
  from s h have "dropWhile is_space s = s" by (cases s) auto
  moreover from s l have "dropWhile is_space (rev s) = rev s"
    by (cases "rev s") (auto simp: last_rev [symmetric] simp del: last_rev)
  ultimately show ?thesis by (simp add: strip_def)
qed

lemma strip_join: "list_all normal_token ws \<Longrightarrow> strip (join ws) = join ws"
proof (cases ws)
  case Nil
  then show ?thesis by (simp add: strip_def)
next
  case (Cons w vs)
  assume a: "list_all normal_token ws"
  then have w: "normal_token w" and l: "normal_token (last ws)"
    using Cons by (auto simp: list_all_iff)
  from w obtain r where r: "join ws = hd w # r"
    using join_Cons_hd [of w vs] Cons by (auto simp: normal_token_def)
  from l have ll: "last ws \<noteq> []" "\<not> is_space (last (last ws))"
    by (auto simp: normal_token_def normal_char_def list_all_iff)
  have "ws \<noteq> []" using Cons by simp
  from join_last [OF this ll(1)] ll(2) have "\<not> is_space (last (join ws))" by simp
  moreover have "\<not> is_space (hd (join ws))" using normal_token_hd [OF w] r by simp
  ultimately show ?thesis using r by (intro strip_id) auto
qed

lemma split_word:
  assumes "w \<noteq> []" and "list_all (\<lambda>c. \<not> is_space c) w"
  shows "split w = [w]" and "split (w @ CHR '' '' # s) = w # split s"
proof -
  from assms obtain c cs where w: "w = c # cs" and c: "\<not> is_space c"
    and cs: "\<And>x. x \<in> set cs \<Longrightarrow> \<not> is_space x"
    by (cases w) (auto simp: list_all_iff)
  show "split w = [w]"
    using c cs by (simp add: w takeWhile_eq_all_conv [THEN iffD2] dropWhile_eq_Nil_conv [THEN iffD2])
  show "split (w @ CHR '' '' # s) = w # split s"
    using c cs by (simp add: w takeWhile_append2 dropWhile_append2 space_classes)
qed

lemma split_join: "list_all normal_token ws \<Longrightarrow> split (join ws) = ws"
proof (induction ws rule: join.induct)
  case 1
  show ?case by simp
next
  case (2 w)
  then show ?case
    using split_word(1) [of w] by (simp add: normal_token_no_space normal_token_def)
next
  case (3 w v ws)
  then show ?case
    using split_word(2) [of w "join (v # ws)"] by (simp add: normal_token_no_space normal_token_def)
qed

lemma split_sep_word:
  assumes "CHR '' '' \<notin> set w"
  shows "split_sep w = [w]" and "split_sep (w @ CHR '' '' # s) = w # split_sep s"
  using assms by (induction w) auto

lemma normal_token_no_blank: "normal_token w \<Longrightarrow> CHR '' '' \<notin> set w"
  using space_classes(1) by (auto simp: normal_token_def normal_char_def list_all_iff)

lemma split_sep_join:
  "ws \<noteq> [] \<Longrightarrow> list_all normal_token ws \<Longrightarrow> split_sep (join ws) = ws"
proof (induction ws rule: join.induct)
  case 1
  then show ?case by simp
next
  case (2 w)
  then show ?case by (simp add: split_sep_word(1) normal_token_no_blank)
next
  case (3 w v ws)
  then show ?case by (simp add: split_sep_word(2) normal_token_no_blank)
qed

lemma remover_join:
  assumes "list_all normal_token ws" and "list_all (\<lambda>w. \<not> isStopword w) ws"
  shows "stopword_remover_remove isStopword (join ws) = join ws"
proof (cases "ws = []")
  case True
  then show ?thesis by (simp add: stopword_remover_remove_def)
next
  case False
  have "filter (\<lambda>word. \<not> isStopword word) ws = ws"
    using assms(2) by (simp add: filter_id_conv list_all_iff)
  then show ?thesis
    by (simp add: stopword_remover_remove_def split_sep_join [OF False assms(1)])
qed

lemma remove_stopwords_normal:
  assumes "list_all normal_token ws"
  shows "remove_stopwords (stopword_remover_remove isStopword) ws =
           filter (\<lambda>w. w \<notin> CUSTOM_STOPWORDS) (filter (\<lambda>w. \<not> isStopword w) ws)"
proof (cases "ws = []")
  case True
  then show ?thesis by (simp add: remove_stopwords_def stopword_remover_remove_def)
next
  case False
  have "list_all normal_token (filter (\<lambda>w. \<not> isStopword w) ws)"
    using assms by (simp add: list_all_iff)
  then show ?thesis
    by (simp add: remove_stopwords_def stopword_remover_remove_def
        split_sep_join [OF False assms] split_join)
qed

lemma preprocess_join_fixed:
  assumes "list_all (fixed_token stemmer isStopword) us"
  shows "preprocess stemmer (stopword_remover_remove isStopword) (Str (join us)) = join us"
proof -
  from assms have n: "list_all normal_token us"
    and s: "list_all (\<lambda>w. \<not> isStopword w) us"
    and c: "filter (\<lambda>word. word \<notin> CUSTOM_STOPWORDS) us = us"
    and f: "map stemmer us = us"
    by (auto simp: fixed_token_def list_all_iff filter_id_conv intro: map_idI)
  have "remove_punctuation (case_folding (Str (join us))) = join us"
    by (simp add: case_folding_def remove_punctuation_def lower_join [OF n]
        delete_punctuation_join [OF n] sub_digits_join [OF n] sub_spaces_join [OF n]
        strip_join [OF n])
  moreover have "remove_stopwords (stopword_remover_remove isStopword) us = us"
    by (simp add: remove_stopwords_def remover_join [OF n s] split_join [OF n] c)
  ultimately show ?thesis
    by (simp add: preprocess_def tokenize_def split_join [OF n] stem_def f)
qed


section \<open>Sampling advice\<close>

lemma randint_4_5:
  "\<exists>n g'. randint 4 5 g = (Inr n, g') \<and> (n = 4 \<or> n = 5)"
proof -
  have "g 0 mod 2 = 0 \<or> g 0 mod 2 = 1" by arith
  then show ?thesis by (auto simp: randint_def draw_def)
qed

lemma remove_nth_facts:
  assumes "i < length xs"
  shows "length (take i xs @ drop (Suc i) xs) = length xs - 1"
    and "set (take i xs @ drop (Suc i) xs) \<subseteq> set xs"
    and "distinct xs \<Longrightarrow> distinct (take i xs @ drop (Suc i) xs)"
    and "distinct xs \<Longrightarrow> xs ! i \<notin> set (take i xs @ drop (Suc i) xs)"
proof -
  show "length (take i xs @ drop (Suc i) xs) = length xs - 1"
    using assms by simp
  show "set (take i xs @ drop (Suc i) xs) \<subseteq> set xs"
    using set_take_subset [of i xs] set_drop_subset [of "Suc i" xs] by auto
  have xs: "xs = take i xs @ xs ! i # drop (Suc i) xs"
    using assms by (rule id_take_nth_drop)
  assume d: "distinct xs"
  then have "distinct (take i xs @ xs ! i # drop (Suc i) xs)"
    using xs by simp
  then show "distinct (take i xs @ drop (Suc i) xs)" "xs ! i \<notin> set (take i xs @ drop (Suc i) xs)"
    by auto
qed

lemma pick_length: "k \<le> length population \<Longrightarrow> length (fst (pick population k g)) = k"
proof (induction k arbitrary: population g)
  case 0
  show ?case by simp
next
  case (Suc k)
  let ?i = "fst (draw g) mod length population"
  from Suc.prems have "0 < length population" by (cases population) auto
  then have i: "?i < length population" by simp
  from remove_nth_facts(1) [OF i] Suc.prems
  have "k \<le> length (take ?i population @ drop (Suc ?i) population)" by simp
  from Suc.IH [OF this] show ?case by (simp add: Let_def)
qed

lemma pick_subset: "k \<le> length population \<Longrightarrow> set (fst (pick population k g)) \<subseteq> set population"
proof (induction k arbitrary: population g)
  case 0
  show ?case by simp
next
  case (Suc k)
  let ?i = "fst (draw g) mod length population"
  let ?rest = "take ?i population @ drop (Suc ?i) population"
  from Suc.prems have "0 < length population" by (cases population) auto
  then have i: "?i < length population" by simp
  from remove_nth_facts(1) [OF i] Suc.prems have k: "k \<le> length ?rest" by simp
  have "set (fst (pick ?rest k (snd (draw g)))) \<subseteq> set ?rest" by (rule Suc.IH [OF k])
  also have "\<dots> \<subseteq> set population" by (rule remove_nth_facts(2) [OF i])
  finally show ?case using i by (simp add: Let_def)
qed

lemma pick_distinct:
  "distinct population \<Longrightarrow> k \<le> length population \<Longrightarrow> distinct (fst (pick population k g))"
proof (induction k arbitrary: population g)
  case 0
  show ?case by simp
next
  case (Suc k)
  let ?i = "fst (draw g) mod length population"
  let ?rest = "take ?i population @ drop (Suc ?i) population"
  from Suc.prems have "0 < length population" by (cases population) auto
  then have i: "?i < length population" by simp
  from remove_nth_facts(1) [OF i] Suc.prems have k: "k \<le> length ?rest" by simp
  have d: "distinct ?rest" by (rule remove_nth_facts(3) [OF i Suc.prems(1)])
  have "distinct (fst (pick ?rest k (snd (draw g))))" by (rule Suc.IH [OF d k])
  moreover have "population ! ?i \<notin> set (fst (pick ?rest k (snd (draw g))))"
    using pick_subset [OF k, of "snd (draw g)"] remove_nth_facts(4) [OF i Suc.prems(1)] by auto
  ultimately show ?case by (simp add: Let_def)
qed

lemma sample_result:
  assumes "0 \<le> k" and "k \<le> int (length population)"
  shows "\<exists>xs g'. sample population k g = (Inr xs, g') \<and> int (length xs) = k
           \<and> set xs \<subseteq> set population \<and> (distinct population \<longrightarrow> distinct xs)"
proof -
  from assms have k: "nat k \<le> length population" by simp
  show ?thesis
    using assms pick_length [OF k, of g] pick_subset [OF k, of g] pick_distinct [OF _ k, of g]
    by (simp add: sample_def)
qed

lemma pools:
  "length (p_saran_all pool_baik) = 15" "distinct (p_saran_all pool_baik)"
  "length (p_saran_all pool_sedang) = 15" "distinct (p_saran_all pool_sedang)"
  "length (p_saran_all pool_tidak_sehat) = 17" "distinct (p_saran_all pool_tidak_sehat)"
  by (simp_all add: pool_baik_def pool_sedang_def pool_tidak_sehat_def)

lemma saran_pool_cases:
  "saran_pool k = None \<and> k \<notin> {''Baik'', ''Sedang'', ''Tidak Sehat''}
   \<or> saran_pool k = Some pool_baik \<and> k = ''Baik''
   \<or> saran_pool k = Some pool_sedang \<and> k = ''Sedang''
   \<or> saran_pool k = Some pool_tidak_sehat \<and> k = ''Tidak Sehat''"
  by (simp add: saran_pool_def)

lemma pool_of_facts: "5 \<le> length (p_saran_all (pool_of k))" "distinct (p_saran_all (pool_of k))"
  using saran_pool_cases [of k] pools by (auto simp: pool_of_def)

lemma get_saran_result:
  "\<exists>info g'. get_saran k g = (Inr info, g')
     \<and> s_warna info = p_warna (pool_of k) \<and> s_icon info = p_icon (pool_of k)
     \<and> s_deskripsi info = p_deskripsi (pool_of k)
     \<and> (length (s_saran info) = 4 \<or> length (s_saran info) = 5)
     \<and> distinct (s_saran info) \<and> set (s_saran info) \<subseteq> set (p_saran_all (pool_of k))"
proof -
  obtain n g1 where r: "randint 4 5 g = (Inr n, g1)" and n: "n = 4 \<or> n = 5"
    using randint_4_5 by blast
  let ?all = "p_saran_all (pool_of k)"
  from n pool_of_facts(1) [of k] have m: "min n (int (length ?all)) = n" by auto
  from n pool_of_facts(1) [of k] have "0 \<le> n" "n \<le> int (length ?all)" by auto
  from sample_result [OF this, of g1] pool_of_facts(2) [of k]
  obtain xs g2 where s: "sample ?all n g1 = (Inr xs, g2)" and x: "int (length xs) = n"
    "set xs \<subseteq> set ?all" "distinct xs"
    by blast
  have sed: "saran_pool ''Sedang'' = Some pool_sedang" by (simp add: saran_pool_def)
  have "get_saran k g =
      (Inr \<lparr>s_warna = p_warna (pool_of k), s_icon = p_icon (pool_of k),
            s_deskripsi = p_deskripsi (pool_of k), s_saran = xs\<rparr>, g2)"
    by (simp add: get_saran_def sed pool_of_def [symmetric] r m s Let_def)
  with x n show ?thesis by auto
qed

section \<open>Rounding to one decimal\<close>

lemma round_half_even_bounds:
  "\<lfloor>y\<rfloor> \<le> round_half_even y" "round_half_even y \<le> \<lfloor>y\<rfloor> + 1"
  by (simp_all add: round_half_even_def Let_def)

lemma round_half_even_close: "\<bar>of_int (round_half_even y) - y\<bar> \<le> 1 / 2"
proof -
  have "of_int \<lfloor>y\<rfloor> \<le> y" "y < of_int \<lfloor>y\<rfloor> + 1" by linarith+
  then show ?thesis
    by (auto simp: round_half_even_def Let_def abs_le_iff)
qed

lemma round_half_even_mono:
  assumes "x \<le> y"
  shows "round_half_even x \<le> round_half_even y"
proof (cases "\<lfloor>x\<rfloor> = \<lfloor>y\<rfloor>")
  case True
  with assms show ?thesis
    by (auto simp: round_half_even_def Let_def)
next
  case False
  with assms have "\<lfloor>x\<rfloor> + 1 \<le> \<lfloor>y\<rfloor>"
    using floor_mono [OF assms] by linarith
  with round_half_even_bounds(2) [of x] round_half_even_bounds(1) [of y]
  show ?thesis by linarith
qed

lemma round_half_even_of_int [simp]: "round_half_even (of_int k) = k"
  by (simp add: round_half_even_def)

lemma round1_mono: "x \<le> y \<Longrightarrow> round1 x \<le> round1 y"
  by (simp add: round1_def round_half_even_mono divide_right_mono)

lemma round1_close: "\<bar>round1 x - x\<bar> \<le> 1 / 20"
proof -
  define r :: real where "r = of_int (round_half_even (x * 10))"
  have e: "round1 x = r / 10"
    by (simp add: round1_def r_def)
  have "\<bar>r - x * 10\<bar> \<le> 1 / 2"
    unfolding r_def by (rule round_half_even_close)
  then have h: "r - x * 10 \<le> 1 / 2" "x * 10 - r \<le> 1 / 2"
    unfolding abs_le_iff by linarith+
  have "r / 10 - x \<le> 1 / 20" using h by linarith
  moreover have "- (r / 10 - x) \<le> 1 / 20" using h by linarith
  ultimately show ?thesis
    unfolding e abs_le_iff by blast
qed

lemma round1_percent:
  assumes "0 \<le> q" and "q \<le> 1"
  shows "0 \<le> round1 (q * 100)" and "round1 (q * 100) \<le> 100"
proof -
  have z: "round1 0 = 0" using round_half_even_of_int [of 0] by (simp add: round1_def)
  have h: "round1 100 = 100"
    using round_half_even_of_int [of 1000] by (simp add: round1_def)
  from assms have "0 \<le> q * 100" "q * 100 \<le> 100" by simp_all
  from round1_mono [OF this(1)] round1_mono [OF this(2)] z h
  show "0 \<le> round1 (q * 100)" and "round1 (q * 100) \<le> 100" by simp_all
qed

lemma sum_list_round1:
  "\<bar>sum_list (map (\<lambda>q. round1 (q * 100)) ps) - 100 * sum_list ps\<bar> \<le> real (length ps) / 20"
proof (induction ps)
  case Nil
  show ?case by simp
next
  case (Cons p ps)
  let ?a = "round1 (p * 100) - p * 100"
  let ?b = "sum_list (map (\<lambda>q. round1 (q * 100)) ps) - 100 * sum_list ps"
  have "sum_list (map (\<lambda>q. round1 (q * 100)) (p # ps)) - 100 * sum_list (p # ps) = ?a + ?b"
    by (simp add: algebra_simps)
  then have "\<bar>sum_list (map (\<lambda>q. round1 (q * 100)) (p # ps)) - 100 * sum_list (p # ps)\<bar>
             \<le> \<bar>?a\<bar> + \<bar>?b\<bar>"
    using abs_triangle_ineq [of ?a ?b] by simp
  also have "\<dots> \<le> 1 / 20 + real (length ps) / 20"
    using round1_close [of "p * 100"] Cons.IH by linarith
  also have "\<dots> = real (length (p # ps)) / 20"
    by (simp add: field_simps)
  finally show ?case .
qed

section \<open>Dictionaries built by zip\<close>

lemma dict_zip_distinct:
  assumes "distinct ks" and "length ks = length vs"
  shows "dict_zip ks vs = map_of (zip ks vs)"
proof -
  have "distinct (map fst (zip ks vs))" using assms by simp
  moreover then have "distinct (map fst (rev (zip ks vs)))" by (simp add: rev_map [symmetric])
  ultimately show ?thesis
    unfolding dict_zip_def by (subst map_of_inject_set) simp_all
qed

lemma dict_zip_dom: "distinct ks \<Longrightarrow> length ks = length vs \<Longrightarrow> dom (dict_zip ks vs) = set ks"
  by (simp add: dict_zip_distinct)

lemma dict_zip_nth:
  "distinct ks \<Longrightarrow> length ks = length vs \<Longrightarrow> i < length vs \<Longrightarrow> dict_zip ks vs (ks ! i) = Some (vs ! i)"
  by (simp add: dict_zip_distinct map_of_zip_nth)

lemma dict_zip_value:
  "distinct ks \<Longrightarrow> length ks = length vs \<Longrightarrow> dict_zip ks vs c = Some q \<Longrightarrow> q \<in> set vs"
  by (auto simp: dict_zip_distinct dest!: map_of_SomeD set_zip_rightD)


section \<open>The first largest entry\<close>

lemma first_max:
  assumes "ps \<noteq> []"
  shows "first_max ps < length ps" and "ps ! first_max ps = Max (set ps)"
proof -
  let ?P = "\<lambda>p. p < Max (set ps)"
  have "Max (set ps) \<in> set ps" using assms by (intro Max_in) auto
  then have "takeWhile ?P ps \<noteq> ps"
    unfolding takeWhile_eq_all_conv by auto
  with length_takeWhile_le [of ?P ps] have "length (takeWhile ?P ps) \<noteq> length ps"
    by (metis takeWhile_eq_take take_all_iff order_refl)
  with length_takeWhile_le [of ?P ps] show l: "first_max ps < length ps"
    by (simp add: first_max_def)
  then have "\<not> ?P (ps ! first_max ps)"
    unfolding first_max_def by (rule nth_length_takeWhile)
  moreover have "ps ! first_max ps \<le> Max (set ps)"
    using l by (intro Max_ge) auto
  ultimately show "ps ! first_max ps = Max (set ps)" by simp
qed

section \<open>The branches of the route\<close>

lemma predict_unloaded:
  assumes "model g = None \<or> vectorizer g = None"
  shows "predict lib percent stemmer remover g form r
         = (Inr (Failure ''Model belum dimuat. Jalankan training terlebih dahulu.''), r)"
  using assms by (auto simp: predict_def split: option.splits)

lemma predict_blank:
  assumes "model g = Some m" and "vectorizer g = Some v" and "strip (request_text form) = []"
  shows "predict lib percent stemmer remover g form r
         = (Inr (Failure ''Silakan isi minimal satu pertanyaan.''), r)"
  using assms by (simp add: predict_def request_text_def)

lemma predict_raises:
  assumes "model g = Some m" and "vectorizer g = Some v"
    and "strip (request_text form) \<noteq> []"
    and "sk_transform lib v (preprocess stemmer remover (Str (request_text form))) = Inl e
         \<or> (\<exists>x. sk_transform lib v (preprocess stemmer remover (Str (request_text form))) = Inr x
              \<and> (sk_predict lib m x = Inl e
                  \<or> (\<exists>l. sk_predict lib m x = Inr l
                       \<and> (sk_predict_proba lib m x = Inl e
                           \<or> (\<exists>ps. sk_predict_proba lib m x = Inr ps
                                \<and> sk_classes lib m = Inl e)))))"
  shows "predict lib percent stemmer remover g form r = (Inl e, r)"
  using assms by (auto simp: predict_def request_text_def)

lemma predict_success:
  assumes "model g = Some m" and "vectorizer g = Some v"
    and "strip (request_text form) \<noteq> []"
    and "sk_transform lib v (preprocess stemmer remover (Str (request_text form))) = Inr x"
    and "sk_predict lib m x = Inr l"
    and "sk_predict_proba lib m x = Inr ps"
    and "sk_classes lib m = Inr cs"
  shows "\<exists>(info :: saran_info) r'.
     predict lib percent stemmer remover g form r =
       (Inr (Success
          \<lparr>kualitas = l, input_text = request_text form,
           processed_text = preprocess stemmer remover (Str (request_text form)),
           probabilitas = dict_zip cs (map percent ps),
           saran = s_saran info, deskripsi = s_deskripsi info\<rparr>), r')"
proof -
  from get_saran_result [of l r] obtain info r' where "get_saran l r = (Inr info, r')"
    by blast
  with assms show ?thesis
    by (auto simp: predict_def request_text_def Let_def)
qed

lemma library_outcome:
  "(\<exists>e. sk_transform lib v t = Inl e
         \<or> (\<exists>x. sk_transform lib v t = Inr x
              \<and> (sk_predict lib m x = Inl e
                  \<or> (\<exists>l. sk_predict lib m x = Inr l
                       \<and> (sk_predict_proba lib m x = Inl e
                           \<or> (\<exists>ps. sk_predict_proba lib m x = Inr ps
                                \<and> sk_classes lib m = Inl e))))))
   \<or> (\<exists>x l ps cs. sk_transform lib v t = Inr x \<and> sk_predict lib m x = Inr l
         \<and> sk_predict_proba lib m x = Inr ps \<and> sk_classes lib m = Inr cs)"
proof (cases "sk_transform lib v t")
  case (Inl e)
  then show ?thesis by blast
next
  case x: (Inr x)
  show ?thesis
  proof (cases "sk_predict lib m x")
    case (Inl e)
    with x show ?thesis by blast
  next
    case l: (Inr l)
    show ?thesis
    proof (cases "sk_predict_proba lib m x")
      case (Inl e)
      with x l show ?thesis by blast
    next
      case ps: (Inr ps)
      show ?thesis
      proof (cases "sk_classes lib m")
        case (Inl e)
        with x l ps show ?thesis by blast
      next
        case (Inr cs)
        with x l ps show ?thesis by blast
      qed
    qed
  qed
qed

section \<open>The distribution of the specification\<close>

lemma sum_list_divide_const: "sum_list (map (\<lambda>e. e / s) es) = sum_list es / (s :: real)"
  by (induction es) (simp_all add: add_divide_distrib)

lemma sum_list_positive:
  "es \<noteq> [] \<Longrightarrow> list_all (\<lambda>e. 0 < e) es \<Longrightarrow> 0 < sum_list (es :: real list)"
proof (induction es)
  case Nil
  then show ?case by simp
next
  case (Cons e es)
  show ?case
  proof (cases "es = []")
    case True
    with Cons.prems show ?thesis by simp
  next
    case False
    with Cons have "0 < sum_list es" by simp
    with Cons.prems show ?thesis by simp
  qed
qed

lemma member_le_sum_list_positive:
  "list_all (\<lambda>e. 0 < e) es \<Longrightarrow> e \<in> set es \<Longrightarrow> e \<le> sum_list (es :: real list)"
proof (induction es)
  case Nil
  then show ?case by simp
next
  case (Cons a es)
  show ?case
  proof (cases "es = []")
    case True
    with Cons.prems show ?thesis by simp
  next
    case False
    with Cons.prems have s: "0 < sum_list es" by (simp add: sum_list_positive)
    from Cons.prems consider "e = a" | "e \<in> set es" by auto
    then show ?thesis
    proof cases
      case 1
      with s show ?thesis by simp
    next
      case 2
      with Cons have "e \<le> sum_list es" by simp
      with Cons.prems show ?thesis by simp
    qed
  qed
qed

lemma distribution_facts:
  assumes "joint_log_likelihood c x \<noteq> []"
  shows "length (distribution c x) = length (joint_log_likelihood c x)"
    and "list_all (\<lambda>q. 0 < q \<and> q \<le> 1) (distribution c x)"
    and "sum_list (distribution c x) = 1"
proof -
  let ?es = "map exp (joint_log_likelihood c x)"
  have d: "distribution c x = map (\<lambda>e. e / sum_list ?es) ?es"
    by (simp add: distribution_def Let_def)
  have pos: "list_all (\<lambda>e. 0 < e) ?es"
    by (simp add: list_all_iff)
  have ne: "?es \<noteq> []" using assms by simp
  have s: "0 < sum_list ?es" using ne pos by (rule sum_list_positive)
  show "length (distribution c x) = length (joint_log_likelihood c x)"
    unfolding d by simp
  show "sum_list (distribution c x) = 1"
    unfolding d sum_list_divide_const using s by simp
  have "0 < e / sum_list ?es \<and> e / sum_list ?es \<le> 1" if "e \<in> set ?es" for e
  proof -
    from that pos have "0 < e" by (auto simp: list_all_iff)
    moreover from member_le_sum_list_positive [OF pos that] have "e \<le> sum_list ?es" .
    ultimately show ?thesis using s by simp
  qed
  then show "list_all (\<lambda>q. 0 < q \<and> q \<le> 1) (distribution c x)"
    unfolding d list_all_iff by auto
qed

lemma fitted_likelihoods:
  assumes "fitted v c"
  shows "length (joint_log_likelihood c x) = length (cl_classes c)"
    and "joint_log_likelihood c x \<noteq> []"
proof -
  show l: "length (joint_log_likelihood c x) = length (cl_classes c)"
    using assms by (simp add: fitted_def joint_log_likelihood_def)
  from assms have "cl_classes c \<noteq> []" by (simp add: fitted_def)
  with l show "joint_log_likelihood c x \<noteq> []" by auto
qed

lemma fitted_distribution:
  assumes "fitted v c"
  shows "length (distribution c x) = length (cl_classes c)"
    and "distribution c x \<noteq> []"
    and "list_all (\<lambda>q. 0 \<le> q \<and> q \<le> 1) (distribution c x)"
    and "sum_list (distribution c x) = 1"
proof -
  note f = fitted_likelihoods [OF assms, of x]
  show l: "length (distribution c x) = length (cl_classes c)"
    using distribution_facts(1) [OF f(2)] f(1) by simp
  from assms have "cl_classes c \<noteq> []" by (simp add: fitted_def)
  with l show "distribution c x \<noteq> []" by auto
  from distribution_facts(2) [OF f(2)]
  show "list_all (\<lambda>q. 0 \<le> q \<and> q \<le> 1) (distribution c x)"
    by (auto simp: list_all_iff intro: less_imp_le)
  show "sum_list (distribution c x) = 1"
    by (rule distribution_facts(3) [OF f(2)])
qed

lemma first_max_before:
  assumes "j < first_max ps"
  shows "ps ! j < Max (set ps)"
proof -
  let ?P = "\<lambda>p. p < Max (set ps)"
  from assms have j: "j < length (takeWhile ?P ps)" by (simp add: first_max_def)
  then have "takeWhile ?P ps ! j = ps ! j" by (rule takeWhile_nth)
  moreover from j have "takeWhile ?P ps ! j \<in> set (takeWhile ?P ps)" by simp
  ultimately show ?thesis using set_takeWhileD by fastforce
qed

lemma chosen_label_fitted:
  assumes "fitted v c"
  shows "chosen_label c x = Inr (cl_classes c ! first_max (distribution c x))"
    and "first_max (distribution c x) < length (cl_classes c)"
proof -
  note d = fitted_distribution [OF assms, of x]
  from first_max(1) [OF d(2)] d(1)
  show i: "first_max (distribution c x) < length (cl_classes c)" by simp
  with d(2) show "chosen_label c x = Inr (cl_classes c ! first_max (distribution c x))"
    by (simp add: chosen_label_def Let_def)
qed

lemma spec_argmax_first_max:
  assumes "distinct cs" and "length cs = length ds" and "ds \<noteq> []"
  shows "spec_argmax cs (dict_zip cs ds) = Some (cs ! first_max ds)"
proof -
  let ?i = "first_max ds"
  let ?P = "\<lambda>c. list_all (\<lambda>d. case (dict_zip cs ds c, dict_zip cs ds d) of
                                (Some p, Some q) \<Rightarrow> q \<le> p | _ \<Rightarrow> False) cs"
  note fm = first_max [OF assms(3)]
  have at: "dict_zip cs ds (cs ! j) = Some (ds ! j)" if "j < length ds" for j
    using dict_zip_nth [OF assms(1,2) that] .
  have P: "?P (cs ! j) \<longleftrightarrow> ds ! j = Max (set ds)" if j: "j < length ds" for j
  proof
    assume p: "?P (cs ! j)"
    have "cs ! ?i \<in> set cs" using fm(1) assms(2) by simp
    with p have "case (dict_zip cs ds (cs ! j), dict_zip cs ds (cs ! ?i)) of
                   (Some p, Some q) \<Rightarrow> q \<le> p | _ \<Rightarrow> False"
      by (simp add: list_all_iff)
    then have "ds ! ?i \<le> ds ! j" by (simp add: at [OF j] at [OF fm(1)])
    moreover have "ds ! j \<le> Max (set ds)" using j by simp
    ultimately show "ds ! j = Max (set ds)" using fm(2) by simp
  next
    assume m: "ds ! j = Max (set ds)"
    have "case (dict_zip cs ds (cs ! j), dict_zip cs ds d) of
                   (Some p, Some q) \<Rightarrow> q \<le> p | _ \<Rightarrow> False" if "d \<in> set cs" for d
    proof -
      from that obtain k where k: "k < length cs" "d = cs ! k"
        by (auto simp: in_set_conv_nth)
      then have "ds ! k \<le> Max (set ds)" using assms(2) by simp
      with k assms(2) show ?thesis by (simp add: at j m)
    qed
    then show "?P (cs ! j)" by (simp add: list_all_iff)
  qed
  have "find ?P cs = Some (cs ! ?i)"
    unfolding find_Some_iff
  proof (intro exI [of _ ?i] conjI allI impI)
    show "?i < length cs" using fm(1) assms(2) by simp
    show "?P (cs ! ?i)" using P [OF fm(1)] fm(2) by simp
    show "cs ! ?i = cs ! ?i" ..
    fix j assume j: "j < ?i"
    then have jl: "j < length ds" using fm(1) by simp
    from first_max_before [OF j] have "ds ! j \<noteq> Max (set ds)" by simp
    then show "\<not> ?P (cs ! j)" using P [OF jl] by simp
  qed
  then show ?thesis by (simp add: spec_argmax_def)
qed

lemma sum_list_zeros: "(\<And>y. y \<in> set ys \<Longrightarrow> y = 0) \<Longrightarrow> sum_list (ys :: real list) = 0"
  by (induction ys) simp_all

lemma transform_unseen:
  assumes "list_all (\<lambda>term. term \<notin> set (ngrams text)) (ex_vocabulary v)"
    and "length (ex_idf v) = length (ex_vocabulary v)"
  shows "transform v text = replicate (length (ex_vocabulary v)) 0"
proof (rule replicate_eqI)
  show "length (transform v text) = length (ex_vocabulary v)"
    using assms(2) by (simp add: transform_def)
  fix y assume "y \<in> set (transform v text)"
  then obtain t w where "(t, w) \<in> set (zip (ex_vocabulary v) (ex_idf v))"
    and y: "y = real (count_list (ngrams text) t) * w"
    by (auto simp: transform_def)
  then have "t \<in> set (ex_vocabulary v)" by (auto dest: set_zip_leftD)
  with assms(1) have "count_list (ngrams text) t = 0"
    by (simp add: list_all_iff count_list_0_iff)
  then show "y = 0" by (simp add: y)
qed

lemma likelihood_of_zeros:
  assumes "fitted v c"
  shows "joint_log_likelihood c (replicate n 0) = cl_log_prior c"
proof -
  have z: "sum_list (map2 (\<lambda>weight l. weight * l) (replicate n 0) row) = 0" for row :: "real list"
    by (rule sum_list_zeros) (auto dest: set_zip_leftD)
  have "joint_log_likelihood c (replicate n 0)
          = map (\<lambda>(prior, row). prior) (zip (cl_log_prior c) (cl_log_likelihood c))"
    unfolding joint_log_likelihood_def
    by (rule map_cong [OF refl]) (auto simp: z)
  also have "\<dots> = map fst (zip (cl_log_prior c) (cl_log_likelihood c))"
    by (simp add: case_prod_unfold)
  also have "\<dots> = cl_log_prior c"
    using assms by (simp add: fitted_def)
  finally show ?thesis .
qed

lemma distribution_unseen:
  assumes "fitted v c"
    and "list_all (\<lambda>term. term \<notin> set (ngrams text)) (ex_vocabulary v)"
  shows "distribution c (transform v text)
         = map (\<lambda>e. e / sum_list (map exp (cl_log_prior c))) (map exp (cl_log_prior c))"
proof -
  from assms(1) have "length (ex_idf v) = length (ex_vocabulary v)" by (simp add: fitted_def)
  from transform_unseen [OF assms(2) this] likelihood_of_zeros [OF assms(1)]
  show ?thesis by (simp add: distribution_def Let_def)
qed


lemma spec_route:
  assumes "model g = Some (Classifier c)" and "vectorizer g = Some (Extractor v)"
    and "fitted v c" and "strip (request_text form) \<noteq> []"
    and "ds = distribution c (transform v (preprocess stemmer remover (Str (request_text form))))"
  shows "\<exists>(info :: saran_info) r'.
     predict spec_sklearn percent stemmer remover g form r =
       (Inr (Success
          \<lparr>kualitas = cl_classes c ! first_max ds, input_text = request_text form,
           processed_text = preprocess stemmer remover (Str (request_text form)),
           probabilitas = dict_zip (cl_classes c) (map percent ds),
           saran = s_saran info, deskripsi = s_deskripsi info\<rparr>), r')"
proof (rule predict_success [OF assms(1,2,4)])
  let ?t = "preprocess stemmer remover (Str (request_text form))"
  show "sk_transform spec_sklearn (Extractor v) ?t = Inr (transform v ?t)"
    by (simp add: spec_sklearn_def)
  show "sk_predict spec_sklearn (Classifier c) (transform v ?t) = Inr (cl_classes c ! first_max ds)"
    using chosen_label_fitted(1) [OF assms(3)] by (simp add: spec_sklearn_def assms(5))
  show "sk_predict_proba spec_sklearn (Classifier c) (transform v ?t) = Inr ds"
    by (simp add: spec_sklearn_def assms(5))
  show "sk_classes spec_sklearn (Classifier c) = Inr (cl_classes c)"
    by (simp add: spec_sklearn_def)
qed

section \<open>The sample resources evaluated\<close>

lemma sample_fitted: "fitted sample_extractor sample_classifier"
  by (simp add: fitted_def sample_extractor_def sample_classifier_def)

lemma sample_prior_distribution:
  "map (\<lambda>e. e / sum_list (map exp (cl_log_prior sample_classifier)))
     (map exp (cl_log_prior sample_classifier)) = [1 / 2, 1 / 4, 1 / 4]"
  by (simp add: sample_classifier_def)

lemma sample_percent_contract:
  "a \<le> b \<Longrightarrow> sample_percent a \<le> sample_percent b"
  "sample_percent 0 = 0" "sample_percent 1 = 100"
  "\<bar>sample_percent q - 100 * q\<bar> \<le> 1 / 20 + 0"
proof -
  show "a \<le> b \<Longrightarrow> sample_percent a \<le> sample_percent b"
    by (simp add: sample_percent_def round1_mono)
  show "sample_percent 0 = 0"
    using round_half_even_of_int [of 0] by (simp add: sample_percent_def round1_def)
  show "sample_percent 1 = 100"
    using round_half_even_of_int [of 1000] by (simp add: sample_percent_def round1_def)
  show "\<bar>sample_percent q - 100 * q\<bar> \<le> 1 / 20 + 0"
    using round1_close [of "q * 100"] by (simp add: sample_percent_def mult.commute)
qed

lemma sample_loaded:
  "model sample_globals = Some (Classifier sample_classifier)"
  "vectorizer sample_globals = Some (Extractor sample_extractor)"
  by (simp_all add: sample_globals_def)


lemma sample_form_stopword_text:
  "strip (request_text sample_form_stopword) \<noteq> []"
  "preprocess sample_stemmer sample_remover (Str (request_text sample_form_stopword)) = []"
  "list_all (\<lambda>term. term \<notin> set (ngrams [])) (ex_vocabulary sample_extractor)"
  by (simp_all add: request_text_def form_get_def sample_form_stopword_def strip_def nlp_eval
      sample_stemmer_def sample_remover_def sample_isStopword_def ngrams_def
      sample_extractor_def)

lemma sample_form_text:
  "strip (request_text sample_form) \<noteq> []"
  "preprocess sample_stemmer sample_remover (Str (request_text sample_form))
     = ''asap tebal mata perih''"
  by (simp_all add: request_text_def form_get_def sample_form_def strip_def nlp_eval
      sample_stemmer_def sample_remover_def sample_isStopword_def)

lemma sample_classes:
  "cl_classes sample_classifier = [''Baik'', ''Sedang'', ''Tidak Sehat'']"
  by (simp add: sample_classifier_def)

lemma sample_percents: "sample_percent (1 / 2) = 50" "sample_percent (1 / 4) = 25"
  by (simp_all add: sample_percent_def round1_def round_half_even_def Let_def)


section \<open>Training on small and on sample data\<close>

lemma small_dataset_leaves_no_training_part:
  assumes "n < 2"
  shows "n - nat \<lceil>(2 / 10 :: real) * real n\<rceil> = 0"
proof -
  from assms consider "n = 0" | "n = 1" by linarith
  then show ?thesis
  proof cases
    case 1
    then show ?thesis by simp
  next
    case 2
    have "\<lceil>(2 / 10 :: real)\<rceil> = 1" by (rule ceiling_unique) simp_all
    with 2 show ?thesis by simp
  qed
qed

lemma sample_split_contract:
  "length X - nat \<lceil>test_size * real (length X)\<rceil> = 0 \<Longrightarrow>
   \<exists>e. tr_train_test_split sample_trainer X y test_size random_state stratify = Inl e"
  by (simp add: sample_trainer_def sample_train_test_split_def)

lemma sample_df_rows:
  "map fst sample_df = replicate 10 ''udara segar bersih''"
  "map snd sample_df = replicate 10 ''Baik''"
  by (simp_all add: sample_df_def)

lemma replicate_numeral_Cons: "replicate (numeral k) x = x # replicate (pred_numeral k) x"
  by (simp add: numeral_eq_Suc)

lemma sample_split:
  "tr_train_test_split sample_trainer (map fst sample_df) (map snd sample_df) (2 / 10) 42
     (map snd sample_df)
     = Inr (replicate 8 ''udara segar bersih'', replicate 2 ''udara segar bersih'',
            replicate 8 ''Baik'', replicate 2 ''Baik'')"
  unfolding sample_df_rows
  by (simp add: sample_trainer_def sample_train_test_split_def Let_def replicate_numeral_Cons)

lemma sample_words: "split ''udara segar bersih'' = [''udara'', ''segar'', ''bersih'']"
  by (simp add: char_classes)

lemma sample_fit_transform:
  "tr_fit_transform sample_trainer (replicate 8 ''udara segar bersih'')
     = Inr ([''udara'', ''segar'', ''bersih''], replicate 8 [1, 1, 1])"
  by (simp add: sample_trainer_def replicate_numeral_Cons sample_words)

lemma sample_transform:
  "tr_transform sample_trainer [''udara'', ''segar'', ''bersih'']
     (replicate 2 ''udara segar bersih'') = Inr (replicate 2 [1, 1, 1])"
  by (simp add: sample_trainer_def replicate_numeral_Cons sample_words)

lemma sample_fit:
  "tr_fit sample_trainer (replicate 8 [1, 1, 1]) (replicate 8 ''Baik'') = Inr [''Baik'']"
  by (simp add: sample_trainer_def replicate_numeral_Cons)

lemma sample_predict:
  "tr_predict sample_trainer [''Baik''] (replicate 2 [1, 1, 1]) = Inr (replicate 2 ''Baik'')"
  by (simp add: sample_trainer_def replicate_numeral_Cons)

lemma sample_accuracy:
  "tr_accuracy_score sample_trainer (replicate 2 ''Baik'') (replicate 2 ''Baik'') = 1"
  by (simp add: sample_trainer_def replicate_numeral_Cons)

section \<open>The text normalizer\<close>

text \<open>
  C7. Normalizing the empty string or a string of three spaces yields the empty string,
  whatever the stemmer and the library's stopword list are; every stage returns a value
  on these inputs: case folding keeps the text, punctuation removal trims it to the
  empty string, and tokenizing, stopword removal and stemming return the empty list.
\<close>

theorem preprocess_empty:
  "preprocess stemmer (stopword_remover_remove isStopword) (Str []) = []
   \<and> preprocess stemmer (stopword_remover_remove isStopword) (Str ''   '') = []
   \<and> case_folding (Str ''   '') = ''   ''
   \<and> remove_punctuation ''   '' = []
   \<and> tokenize [] = []
   \<and> remove_stopwords (stopword_remover_remove isStopword) [] = []
   \<and> stem stemmer [] = []"
  by (simp add: nlp_eval)

text \<open>
  C8. The output of \<open>preprocess\<close> on "udara yang sangat bersih" contains neither the token
  "yang" nor the token "sangat", for every library stopword list, provided the stemmer
  does not itself turn "udara" or "bersih" into text with one of these two tokens: the
  custom pass, which runs after the library's, drops both words before stemming. On the
  four tokens of this text, stopword removal is the library's filter followed by the
  filter against the custom set.
\<close>

theorem preprocess_drops_yang_sangat:
  assumes "list_all (\<lambda>w. ''yang'' \<notin> set (tokenize (stemmer w))
                        \<and> ''sangat'' \<notin> set (tokenize (stemmer w))) [''udara'', ''bersih'']"
  shows "''yang'' \<notin> set (tokenize (preprocess stemmer (stopword_remover_remove isStopword)
                                     (Str ''udara yang sangat bersih'')))
       \<and> ''sangat'' \<notin> set (tokenize (preprocess stemmer (stopword_remover_remove isStopword)
                                       (Str ''udara yang sangat bersih'')))
       \<and> remove_stopwords (stopword_remover_remove isStopword)
            (tokenize (remove_punctuation (case_folding (Str ''udara yang sangat bersih''))))
          = filter (\<lambda>w. w \<notin> CUSTOM_STOPWORDS)
              (filter (\<lambda>w. \<not> isStopword w) [''udara'', ''yang'', ''sangat'', ''bersih''])"
proof -
  let ?ws = "[''udara'', ''yang'', ''sangat'', ''bersih'']"
  let ?ts = "remove_stopwords (stopword_remover_remove isStopword) ?ws"
  have ws: "tokenize (remove_punctuation (case_folding (Str ''udara yang sangat bersih''))) = ?ws"
    by (simp add: nlp_eval)
  have "list_all normal_token ?ws"
    by (simp add: normal_token_def normal_char_def char_classes)
  then have two: "?ts = filter (\<lambda>w. w \<notin> CUSTOM_STOPWORDS) (filter (\<lambda>w. \<not> isStopword w) ?ws)"
    by (rule remove_stopwords_normal)
  then have ts: "set ?ts \<subseteq> {''udara'', ''bersih''}"
    by (auto simp: CUSTOM_STOPWORDS_def)
  have "tokenize (preprocess stemmer (stopword_remover_remove isStopword)
                   (Str ''udara yang sangat bersih''))
        = concat (map (\<lambda>w. tokenize (stemmer w)) ?ts)"
    unfolding preprocess_def Let_def ws stem_def
    by (simp add: tokenize_def split_join_concat comp_def)
  moreover have "''yang'' \<notin> set (tokenize (stemmer w)) \<and> ''sangat'' \<notin> set (tokenize (stemmer w))"
    if "w \<in> set ?ts" for w
    using that ts assms by auto
  ultimately have "''yang'' \<notin> set (tokenize (preprocess stemmer
        (stopword_remover_remove isStopword) (Str ''udara yang sangat bersih'')))"
    and "''sangat'' \<notin> set (tokenize (preprocess stemmer
        (stopword_remover_remove isStopword) (Str ''udara yang sangat bersih'')))"
    by auto
  with two show ?thesis unfolding ws by blast
qed

theorem preprocess_drops_yang_sangat_witness:
  "''yang'' \<notin> set (tokenize (preprocess sample_stemmer sample_remover
                               (Str ''udara yang sangat bersih'')))
   \<and> ''sangat'' \<notin> set (tokenize (preprocess sample_stemmer sample_remover
                                 (Str ''udara yang sangat bersih'')))"
proof -
  have "list_all (\<lambda>w. ''yang'' \<notin> set (tokenize (sample_stemmer w))
                      \<and> ''sangat'' \<notin> set (tokenize (sample_stemmer w))) [''udara'', ''bersih'']"
    by (simp add: sample_stemmer_def tokenize_def char_classes)
  from preprocess_drops_yang_sangat [OF this, of sample_isStopword]
  show ?thesis unfolding sample_remover_def by blast
qed

text \<open>
  C1, as amended. Normalizing a second time changes nothing when every stemmed token of
  the first pass is a word of lowercase letters (no whitespace, punctuation, digit or
  capital), is left unchanged by the stemmer and is in neither stopword list. The claim
  as stated fails without the last condition: stopwords are removed before stemming, so
  a stem that is a stopword survives the first pass and is removed by the second.
\<close>

theorem preprocess_idempotent_on_fixed_tokens:
  assumes "list_all (fixed_token stemmer isStopword)
             (stem stemmer (remove_stopwords (stopword_remover_remove isStopword)
                (tokenize (remove_punctuation (case_folding s)))))"
  shows "preprocess stemmer (stopword_remover_remove isStopword)
           (Str (preprocess stemmer (stopword_remover_remove isStopword) s))
         = preprocess stemmer (stopword_remover_remove isStopword) s"
proof -
  let ?us = "stem stemmer (remove_stopwords (stopword_remover_remove isStopword)
                (tokenize (remove_punctuation (case_folding s))))"
  have "preprocess stemmer (stopword_remover_remove isStopword) s = join ?us"
    by (simp add: preprocess_def)
  with preprocess_join_fixed [OF assms] show ?thesis by simp
qed

theorem preprocess_idempotent_witness:
  "preprocess sample_stemmer sample_remover (Str ''Udaranya SEGAR, dan langit cerah 100%!'')
     = ''udara segar langit cerah''
   \<and> preprocess sample_stemmer sample_remover (Str ''udara segar langit cerah'')
     = ''udara segar langit cerah''"
proof -
  let ?s = "Str ''Udaranya SEGAR, dan langit cerah 100%!''"
  have us: "stem sample_stemmer (remove_stopwords (stopword_remover_remove sample_isStopword)
              (tokenize (remove_punctuation (case_folding ?s))))
            = [''udara'', ''segar'', ''langit'', ''cerah'']"
    by (simp add: nlp_eval sample_stemmer_def sample_isStopword_def)
  have h: "list_all (fixed_token sample_stemmer sample_isStopword)
             (stem sample_stemmer (remove_stopwords (stopword_remover_remove sample_isStopword)
                (tokenize (remove_punctuation (case_folding ?s)))))"
    unfolding us
    by (simp add: fixed_token_def normal_token_def normal_char_def char_classes
        sample_stemmer_def sample_isStopword_def CUSTOM_STOPWORDS_def)
  have v: "preprocess sample_stemmer (stopword_remover_remove sample_isStopword) ?s
           = ''udara segar langit cerah''"
    using us by (simp add: preprocess_def)
  from preprocess_idempotent_on_fixed_tokens [OF h] v
  show ?thesis by (simp add: sample_remover_def)
qed

text \<open>
  C1 as stated fails: with a stemmer that maps "adanya" to its root "ada", a member of
  the custom stopword set, the first pass returns "ada" and the second pass returns the
  empty string.
\<close>

theorem preprocess_not_idempotent:
  "preprocess sample_stemmer sample_remover (Str ''adanya'') = ''ada''
   \<and> ''ada'' \<in> CUSTOM_STOPWORDS
   \<and> preprocess sample_stemmer sample_remover
        (Str (preprocess sample_stemmer sample_remover (Str ''adanya''))) = []
   \<and> preprocess sample_stemmer sample_remover
        (Str (preprocess sample_stemmer sample_remover (Str ''adanya'')))
       \<noteq> preprocess sample_stemmer sample_remover (Str ''adanya'')"
  by (simp add: nlp_eval sample_stemmer_def sample_remover_def sample_isStopword_def)

section \<open>The advisory lookup\<close>

text \<open>
  C10. For every label that is not one of "Baik", "Sedang" and "Tidak Sehat", and for
  every state of the random generator, \<open>get_saran\<close> raises nothing and answers from the
  "Sedang" pool: that pool's colour, icon and description, and four or five advisory
  strings of that pool, no string twice.
\<close>

theorem get_saran_unknown_label:
  assumes "label \<notin> {''Baik'', ''Sedang'', ''Tidak Sehat''}"
  shows "\<exists>info g'. get_saran label g = (Inr info, g')
           \<and> s_warna info = p_warna pool_sedang \<and> s_icon info = p_icon pool_sedang
           \<and> s_deskripsi info = p_deskripsi pool_sedang
           \<and> (length (s_saran info) = 4 \<or> length (s_saran info) = 5)
           \<and> distinct (s_saran info)
           \<and> set (s_saran info) \<subseteq> set (p_saran_all pool_sedang)"
proof -
  from assms have "saran_pool label = None"
    by (simp add: saran_pool_def)
  then have "pool_of label = pool_sedang"
    by (simp add: pool_of_def)
  with get_saran_result [of label g] show ?thesis by simp
qed

theorem get_saran_unknown_label_witness:
  "\<exists>info g'. get_saran ''Buruk'' sample_rng = (Inr info, g')
           \<and> s_warna info = ''#ffc107'' \<and> s_icon info = [9888, 65039]
           \<and> s_deskripsi info = ''Kualitas udara cukup baik, namun perlu sedikit perhatian.''
           \<and> (length (s_saran info) = 4 \<or> length (s_saran info) = 5)
           \<and> distinct (s_saran info)
           \<and> set (s_saran info) \<subseteq> set (p_saran_all pool_sedang)"
proof -
  have "''Buruk'' \<notin> {''Baik'', ''Sedang'', ''Tidak Sehat''}" by simp
  from get_saran_unknown_label [OF this, of sample_rng]
  show ?thesis by (simp add: pool_sedang_def)
qed

section \<open>The route /predict\<close>

text \<open>
  C2. \<open>preprocess\<close> is a function of its argument, the stemmer and the stopword remover:
  it reads no state, so two calls return the same string. Two runs of the route on the
  same loaded objects and the same form, from any two states of the random generator
  (the only randomness of the serving path, used for the advice), end alike: both raise
  the same error of a library call, or both refuse with the same message, or both answer
  with the same label, the same probability values and the same normalized text, which
  is \<open>preprocess\<close> of the text they report.
\<close>

theorem predict_two_runs:
  "(case (fst (predict lib percent stemmer remover g form r1),
          fst (predict lib percent stemmer remover g form r2)) of
      (Inl e1, Inl e2) \<Rightarrow> e1 = e2
    | (Inr (Failure x), Inr (Failure y)) \<Rightarrow> x = y
    | (Inr (Success p), Inr (Success q)) \<Rightarrow>
        kualitas p = kualitas q \<and> probabilitas p = probabilitas q
        \<and> processed_text p = processed_text q
        \<and> processed_text p = preprocess stemmer remover (Str (input_text p))
    | _ \<Rightarrow> False)"
proof (cases "model g = None \<or> vectorizer g = None")
  case True
  then show ?thesis by (simp add: predict_unloaded)
next
  case False
  then obtain m v where mv: "model g = Some m" "vectorizer g = Some v" by auto
  show ?thesis
  proof (cases "strip (request_text form) = []")
    case True
    with mv show ?thesis by (simp add: predict_blank)
  next
    case False
    let ?t = "preprocess stemmer remover (Str (request_text form))"
    from library_outcome [of lib v ?t m]
    consider (raises) e where "sk_transform lib v ?t = Inl e
         \<or> (\<exists>x. sk_transform lib v ?t = Inr x
              \<and> (sk_predict lib m x = Inl e
                  \<or> (\<exists>l. sk_predict lib m x = Inr l
                       \<and> (sk_predict_proba lib m x = Inl e
                           \<or> (\<exists>ps. sk_predict_proba lib m x = Inr ps
                                \<and> sk_classes lib m = Inl e)))))"
      | (returns) x l ps cs where "sk_transform lib v ?t = Inr x \<and> sk_predict lib m x = Inr l
         \<and> sk_predict_proba lib m x = Inr ps \<and> sk_classes lib m = Inr cs"
      by blast
    then show ?thesis
    proof cases
      case raises
      from predict_raises [OF mv False raises, of percent r1]
        predict_raises [OF mv False raises, of percent r2]
      show ?thesis by simp
    next
      case returns
      then have c: "sk_transform lib v ?t = Inr x" "sk_predict lib m x = Inr l"
        "sk_predict_proba lib m x = Inr ps" "sk_classes lib m = Inr cs"
        by simp_all
      from predict_success [OF mv False c, of percent r1]
        predict_success [OF mv False c, of percent r2]
      show ?thesis by auto
    qed
  qed
qed







text \<open>
  C6. For the classifier of the specification, a fitted artifact and a form that is not
  blank, the label the route returns is one of the classifier's labels and is the argmax
  of the classifier's distribution, the first in the classifier's label order among
  tied labels. The route returns that distribution in percentages rounded to one
  decimal; the rounding being monotone, no returned value is larger than the value
  returned for the label.
\<close>

theorem label_is_argmax:
  assumes "model g = Some (Classifier c)" and "vectorizer g = Some (Extractor v)"
    and "fitted v c" and "strip (request_text form) \<noteq> []"
    and "ds = distribution c (transform v (preprocess stemmer remover (Str (request_text form))))"
    and "\<And>a b. a \<le> b \<Longrightarrow> percent a \<le> percent b"
  shows "\<exists>p r'. predict spec_sklearn percent stemmer remover g form r = (Inr (Success p), r')
           \<and> kualitas p \<in> set (cl_classes c)
           \<and> spec_argmax (cl_classes c) (dict_zip (cl_classes c) ds) = Some (kualitas p)
           \<and> probabilitas p = dict_zip (cl_classes c) (map percent ds)
           \<and> (\<exists>q. probabilitas p (kualitas p) = Some q
                 \<and> (\<forall>l q'. probabilitas p l = Some q' \<longrightarrow> q' \<le> q))"
proof -
  let ?cs = "cl_classes c"
  let ?vs = "map percent ds"
  let ?i = "first_max ds"
  from spec_route [OF assms(1-5), of percent r]
  obtain p r' where a: "predict spec_sklearn percent stemmer remover g form r = (Inr (Success p), r')"
    and k: "kualitas p = ?cs ! ?i" and d: "probabilitas p = dict_zip ?cs ?vs"
    by auto
  note f = fitted_distribution [OF assms(3), of "transform v (preprocess stemmer remover (Str (request_text form)))",
      folded assms(5)]
  from assms(3) have dc: "distinct ?cs" by (simp add: fitted_def)
  have len: "length ?cs = length ?vs" using f(1) by simp
  note fm = first_max [OF f(2)]
  from fm(1) f(1) have "kualitas p \<in> set ?cs" unfolding k by simp
  moreover have "spec_argmax ?cs (dict_zip ?cs ds) = Some (kualitas p)"
    unfolding k using dc f(1) f(2) by (intro spec_argmax_first_max) simp_all
  moreover have "probabilitas p (kualitas p) = Some (percent (ds ! ?i))"
    unfolding k d using dict_zip_nth [OF dc len, of ?i] fm(1) by simp
  moreover have "q' \<le> percent (ds ! ?i)" if "probabilitas p l = Some q'" for l q'
  proof -
    from that have "q' \<in> set ?vs"
      unfolding d using dict_zip_value [OF dc len] by blast
    then obtain y where y: "y \<in> set ds" and q': "q' = percent y" by auto
    from y have "y \<le> Max (set ds)" by simp
    then show ?thesis unfolding q' fm(2) by (rule assms(6))
  qed
  ultimately show ?thesis using a d by blast
qed

text \<open>
  The statement at the sample artifact and a sample form.
\<close>

theorem label_is_argmax_witness:
  "\<exists>p r'. predict spec_sklearn sample_percent sample_stemmer sample_remover sample_globals
            sample_form sample_rng = (Inr (Success p), r')
     \<and> kualitas p \<in> {''Baik'', ''Sedang'', ''Tidak Sehat''}
     \<and> spec_argmax [''Baik'', ''Sedang'', ''Tidak Sehat'']
          (dict_zip [''Baik'', ''Sedang'', ''Tidak Sehat'']
             (distribution sample_classifier
                (transform sample_extractor ''asap tebal mata perih''))) = Some (kualitas p)"
proof -
  have mono: "\<And>a b. a \<le> b \<Longrightarrow> sample_percent a \<le> sample_percent b"
    by (rule sample_percent_contract(1))
  from label_is_argmax [where r = sample_rng and percent = sample_percent
      and stemmer = sample_stemmer and remover = sample_remover,
      OF sample_loaded sample_fitted sample_form_text(1) refl mono]
  obtain p r' where a: "predict spec_sklearn sample_percent sample_stemmer sample_remover
      sample_globals sample_form sample_rng = (Inr (Success p), r')"
    and b: "kualitas p \<in> set (cl_classes sample_classifier)"
    and c: "spec_argmax (cl_classes sample_classifier)
          (dict_zip (cl_classes sample_classifier)
             (distribution sample_classifier
                (transform sample_extractor
                   (preprocess sample_stemmer sample_remover (Str (request_text sample_form))))))
        = Some (kualitas p)"
    by blast
  from b have "kualitas p \<in> {''Baik'', ''Sedang'', ''Tidak Sehat''}"
    by (simp add: sample_classes)
  moreover from c have "spec_argmax [''Baik'', ''Sedang'', ''Tidak Sehat'']
          (dict_zip [''Baik'', ''Sedang'', ''Tidak Sehat'']
             (distribution sample_classifier
                (transform sample_extractor ''asap tebal mata perih''))) = Some (kualitas p)"
    by (simp only: sample_classes sample_form_text(2))
  ultimately show ?thesis using a by blast
qed

text \<open>
  C9. For the classifier of the specification, a fitted artifact and a form that is not
  blank and whose normalized text has no term of the vocabulary (the empty text
  included), the feature vector is zero in every entry, so the unseen terms contribute
  nothing, and the route raises no error: it answers with a label of the classifier,
  the first of largest prior, and with a value for every label, the percentage of its
  prior.
\<close>

theorem unseen_vocabulary_is_answered:
  assumes "model g = Some (Classifier c)" and "vectorizer g = Some (Extractor v)"
    and "fitted v c" and "strip (request_text form) \<noteq> []"
    and "text = preprocess stemmer remover (Str (request_text form))"
    and "list_all (\<lambda>term. term \<notin> set (ngrams text)) (ex_vocabulary v)"
    and "ds = map (\<lambda>e. e / sum_list (map exp (cl_log_prior c))) (map exp (cl_log_prior c))"
  shows "sk_transform spec_sklearn (Extractor v) text
           = Inr (replicate (length (ex_vocabulary v)) 0)
       \<and> (\<exists>p r'. predict spec_sklearn percent stemmer remover g form r
                    = (Inr (Success p), r')
              \<and> processed_text p = text
              \<and> kualitas p = cl_classes c ! first_max ds
              \<and> kualitas p \<in> set (cl_classes c)
              \<and> probabilitas p = dict_zip (cl_classes c) (map percent ds)
              \<and> dom (probabilitas p) = set (cl_classes c))"
proof -
  from assms(3) have i: "length (ex_idf v) = length (ex_vocabulary v)"
    and dc: "distinct (cl_classes c)"
    by (simp_all add: fitted_def)
  have t: "sk_transform spec_sklearn (Extractor v) text
             = Inr (replicate (length (ex_vocabulary v)) 0)"
    using transform_unseen [OF assms(6) i] by (simp add: spec_sklearn_def)
  have ds: "ds = distribution c (transform v (preprocess stemmer remover (Str (request_text form))))"
    using distribution_unseen [OF assms(3,6)] by (simp add: assms(5,7))
  note f = fitted_distribution [OF assms(3), of "transform v (preprocess stemmer remover (Str (request_text form)))",
      folded ds]
  from spec_route [OF assms(1-4) ds, of percent r]
  obtain p r' where a: "predict spec_sklearn percent stemmer remover g form r = (Inr (Success p), r')"
    and k: "kualitas p = cl_classes c ! first_max ds"
    and d: "probabilitas p = dict_zip (cl_classes c) (map percent ds)"
    and pt: "processed_text p = text"
    by (auto simp: assms(5))
  from first_max(1) [OF f(2)] f(1) have "kualitas p \<in> set (cl_classes c)"
    unfolding k by simp
  moreover have "dom (probabilitas p) = set (cl_classes c)"
    unfolding d using dc f(1) by (intro dict_zip_dom) simp_all
  ultimately show ?thesis using t a k d pt by blast
qed

text \<open>
  The statement at a form that is not blank and normalizes to the empty string.
\<close>

theorem unseen_vocabulary_witness:
  "preprocess sample_stemmer sample_remover (Str (request_text sample_form_stopword)) = []
   \<and> sk_transform spec_sklearn (Extractor sample_extractor) [] = Inr [0, 0]
   \<and> (\<exists>p r'. predict spec_sklearn sample_percent sample_stemmer sample_remover
                 sample_globals sample_form_stopword sample_rng = (Inr (Success p), r')
          \<and> processed_text p = [] \<and> kualitas p = ''Baik''
          \<and> probabilitas p
              = dict_zip [''Baik'', ''Sedang'', ''Tidak Sehat''] [50, 25, 25])"
proof -
  have fm: "first_max [1 / 2, 1 / 4, 1 / 4] = 0"
    by (simp add: first_max_def)
  from unseen_vocabulary_is_answered [where r = sample_rng and percent = sample_percent,
      OF sample_loaded sample_fitted
      sample_form_stopword_text(1) sample_form_stopword_text(2) [symmetric]
      sample_form_stopword_text(3) sample_prior_distribution [symmetric]]
  obtain p r' where t: "sk_transform spec_sklearn (Extractor sample_extractor) []
           = Inr (replicate (length (ex_vocabulary sample_extractor)) 0)"
    and a: "predict spec_sklearn sample_percent sample_stemmer sample_remover
                 sample_globals sample_form_stopword sample_rng = (Inr (Success p), r')"
    and b: "processed_text p = []"
    and k: "kualitas p = cl_classes sample_classifier ! first_max [1 / 2, 1 / 4, 1 / 4]"
    and d: "probabilitas p = dict_zip (cl_classes sample_classifier)
               (map sample_percent [1 / 2, 1 / 4, 1 / 4])"
    by blast
  from t have "sk_transform spec_sklearn (Extractor sample_extractor) [] = Inr [0, 0]"
    by (simp add: sample_extractor_def)
  moreover from k have "kualitas p = ''Baik''" by (simp add: fm sample_classes)
  moreover from d have "probabilitas p = dict_zip [''Baik'', ''Sedang'', ''Tidak Sehat''] [50, 25, 25]"
    by (simp add: sample_classes sample_percents)
  ultimately show ?thesis using a b sample_form_stopword_text(2) by blast
qed

section \<open>Training\<close>

text \<open>
  C3, as amended. \<open>train_model\<close> checks nothing itself and raises no error of its own:
  an error it ends with is the error of one of its five library calls, and when the
  five calls return it returns the fitted pair with the accuracy. Given that the
  library's split raises when the training part would be empty (the rows minus the test
  share of 0.2, rounded up), training on fewer than 2 rows ends with the split's error
  and returns no fitted pair.
\<close>

theorem train_model_fails_on_small_dataset:
  assumes "\<And>X y test_size random_state stratify.
             length X - nat \<lceil>test_size * real (length X)\<rceil> = 0 \<Longrightarrow>
             \<exists>e. tr_train_test_split lib X y test_size random_state stratify = Inl e"
  shows "(length df < 2 \<longrightarrow> (\<exists>e. train_model lib df = Inl e))
   \<and> (train_model lib df = Inl e \<longrightarrow>
        tr_train_test_split lib (map fst df) (map snd df) (2 / 10) 42 (map snd df) = Inl e
        \<or> (\<exists>X_train X_test y_train y_test.
              tr_train_test_split lib (map fst df) (map snd df) (2 / 10) 42 (map snd df)
                = Inr (X_train, X_test, y_train, y_test)
              \<and> (tr_fit_transform lib X_train = Inl e
                  \<or> (\<exists>v X_train_tfidf. tr_fit_transform lib X_train = Inr (v, X_train_tfidf)
                       \<and> (tr_transform lib v X_test = Inl e
                           \<or> (\<exists>X_test_tfidf. tr_transform lib v X_test = Inr X_test_tfidf
                                \<and> (tr_fit lib X_train_tfidf y_train = Inl e
                                    \<or> (\<exists>m. tr_fit lib X_train_tfidf y_train = Inr m
                                         \<and> tr_predict lib m X_test_tfidf = Inl e))))))))
   \<and> (tr_train_test_split lib (map fst df) (map snd df) (2 / 10) 42 (map snd df)
          = Inr (X_train, X_test, y_train, y_test)
        \<and> tr_fit_transform lib X_train = Inr (v, X_train_tfidf)
        \<and> tr_transform lib v X_test = Inr X_test_tfidf
        \<and> tr_fit lib X_train_tfidf y_train = Inr m
        \<and> tr_predict lib m X_test_tfidf = Inr y_pred
        \<longrightarrow> train_model lib df = Inr (m, v, tr_accuracy_score lib y_test y_pred))"
proof -
  have a: "\<exists>e. train_model lib df = Inl e" if "length df < 2"
  proof -
    from that have "length (map fst df) - nat \<lceil>(2 / 10) * real (length (map fst df))\<rceil> = 0"
      using small_dataset_leaves_no_training_part [of "length df"] by simp
    from assms [OF this, of "map snd df" 42 "map snd df"]
    obtain e where "tr_train_test_split lib (map fst df) (map snd df) (2 / 10) 42 (map snd df) = Inl e"
      by blast
    then have "train_model lib df = Inl e" by (simp add: train_model_def)
    then show ?thesis ..
  qed
  have b: "tr_train_test_split lib (map fst df) (map snd df) (2 / 10) 42 (map snd df) = Inl e
        \<or> (\<exists>X_train X_test y_train y_test.
              tr_train_test_split lib (map fst df) (map snd df) (2 / 10) 42 (map snd df)
                = Inr (X_train, X_test, y_train, y_test)
              \<and> (tr_fit_transform lib X_train = Inl e
                  \<or> (\<exists>v X_train_tfidf. tr_fit_transform lib X_train = Inr (v, X_train_tfidf)
                       \<and> (tr_transform lib v X_test = Inl e
                           \<or> (\<exists>X_test_tfidf. tr_transform lib v X_test = Inr X_test_tfidf
                                \<and> (tr_fit lib X_train_tfidf y_train = Inl e
                                    \<or> (\<exists>m. tr_fit lib X_train_tfidf y_train = Inr m
                                         \<and> tr_predict lib m X_test_tfidf = Inl e)))))))"
    if "train_model lib df = Inl e"
    using that by (auto simp: train_model_def Let_def split: sum.splits prod.splits)
  have c: "train_model lib df = Inr (m, v, tr_accuracy_score lib y_test y_pred)"
    if "tr_train_test_split lib (map fst df) (map snd df) (2 / 10) 42 (map snd df)
          = Inr (X_train, X_test, y_train, y_test)
        \<and> tr_fit_transform lib X_train = Inr (v, X_train_tfidf)
        \<and> tr_transform lib v X_test = Inr X_test_tfidf
        \<and> tr_fit lib X_train_tfidf y_train = Inr m
        \<and> tr_predict lib m X_test_tfidf = Inr y_pred"
    using that by (simp add: train_model_def)
  from a b c show ?thesis by blast
qed

text \<open>
  The amended statement at the sample library and a frame of one row.
\<close>

theorem train_model_fails_on_small_dataset_witness:
  "length (take 1 sample_df) < 2
   \<and> (\<exists>e. train_model sample_trainer (take 1 sample_df) = Inl e)"
proof -
  have l: "length (take 1 sample_df) < 2" by simp
  from train_model_fails_on_small_dataset [where lib = sample_trainer
      and df = "take 1 sample_df", OF sample_split_contract, THEN conjunct1] l
  show ?thesis by blast
qed

text \<open>
  C3 as stated fails for a frame with fewer than 2 distinct labels: ten rows with the
  single label "Baik" pass the sample library's stratified split, and \<open>train_model\<close>
  returns a fitted pair.
\<close>

theorem train_model_accepts_single_label:
  "length sample_df = 10
   \<and> remdups (map snd sample_df) = [''Baik'']
   \<and> train_model sample_trainer sample_df
       = Inr ([''Baik''], [''udara'', ''segar'', ''bersih''], 1)"
proof -
  have "train_model sample_trainer sample_df
       = Inr ([''Baik''], [''udara'', ''segar'', ''bersih''], 1)"
    unfolding train_model_def Let_def sample_split
    by (simp only: sum.case prod.case sample_fit_transform sample_transform sample_fit
          sample_predict sample_accuracy)
  then show ?thesis
    by (simp add: sample_df_def replicate_numeral_Cons)
qed

end
